theory Spec2Isabelle
  imports Main "HOL-Library.Word"
begin

unbundle bit_operations_syntax

section \<open>Go strings: the library functions the validator calls\<close>

text \<open>
  A Go string is a sequence of bytes; it is modelled as \<^typ>\<open>string\<close>, a list of 8-bit
  characters. The functions of this section are the ones of Go's \<open>strings\<close> package that
  the source calls, for a one-byte separator.
\<close>

text \<open>\<open>strings.Split(s, sep)\<close>: the fields between the separators. The result is never
  the empty list (\<open>Split("", "/")\<close> is the one-element list holding the empty string), so
  the second branch of the \<open>case\<close> is never taken.\<close>

fun Split :: "string \<Rightarrow> char \<Rightarrow> string list" where
  "Split [] sep = [[]]"
| "Split (c # cs) sep =
     (if c = sep then [] # Split cs sep
      else (case Split cs sep of
              field # fields \<Rightarrow> (c # field) # fields
            | [] \<Rightarrow> [[c]]))"

text \<open>\<open>strings.Join(elems, sep)\<close>.\<close>

fun Join :: "string list \<Rightarrow> string \<Rightarrow> string" where
  "Join [] sep = []"
| "Join [x] sep = x"
| "Join (x # y # ys) sep = x @ sep @ Join (y # ys) sep"

text \<open>\<open>strings.SplitN(s, sep, n)\<close>: at most \<open>n\<close> fields, the last one the unsplit rest.\<close>

fun SplitN :: "string \<Rightarrow> char \<Rightarrow> nat \<Rightarrow> string list" where
  "SplitN s sep 0 = []"
| "SplitN s sep (Suc 0) = [s]"
| "SplitN [] sep (Suc (Suc n)) = [[]]"
| "SplitN (c # cs) sep (Suc (Suc n)) =
     (if c = sep then [] # SplitN cs sep (Suc n)
      else (case SplitN cs sep (Suc (Suc n)) of
              field # fields \<Rightarrow> (c # field) # fields
            | [] \<Rightarrow> [[c]]))"

text \<open>\<open>strings.ToLower\<close> on an ASCII string: \<open>A\<close>..\<open>Z\<close> become \<open>a\<close>..\<open>z\<close>.
  (Every string the validator lower-cases has passed the printable-ASCII check.)\<close>

definition toLowerChar :: "char \<Rightarrow> char" where
  "toLowerChar c =
     (if 65 \<le> (of_char c :: nat) \<and> (of_char c :: nat) \<le> 90
      then char_of ((of_char c :: nat) + 32) else c)"

definition ToLower :: "string \<Rightarrow> string" where
  "ToLower s = map toLowerChar s"

text \<open>\<open>strings.TrimSpace\<close> on an ASCII string: leading and trailing
  \<open>\t \n \v \f \r\<close> and space are removed.\<close>

definition isSpace :: "char \<Rightarrow> bool" where
  "isSpace c = ((of_char c :: nat) \<in> {9, 10, 11, 12, 13, 32})"

definition TrimSpace :: "string \<Rightarrow> string" where
  "TrimSpace s = rev (dropWhile isSpace (rev (dropWhile isSpace s)))"

text \<open>\<open>strings.TrimPrefix(s, prefix)\<close>.\<close>

definition TrimPrefix :: "string \<Rightarrow> string \<Rightarrow> string" where
  "TrimPrefix s pre = (if take (length pre) s = pre then drop (length pre) s else s)"

section \<open>Field validation: \<open>validation.Validate(x, validation.Required, is.PrintableASCII)\<close>\<close>

datatype validation_error =
    ErrRequired          \<comment> \<open>"cannot be blank"\<close>
  | ErrPrintableASCII    \<comment> \<open>"must contain printable ASCII characters only"\<close>

definition isPrintableASCIIChar :: "char \<Rightarrow> bool" where
  "isPrintableASCIIChar c = (32 \<le> (of_char c :: nat) \<and> (of_char c :: nat) \<le> 126)"

text \<open>\<open>is.PrintableASCII\<close>: every byte is in \<open>\x20..\x7E\<close> (the empty string passes this
  rule; \<open>Required\<close> is the rule that refuses it).\<close>

definition IsPrintableASCII :: "string \<Rightarrow> bool" where
  "IsPrintableASCII s = list_all isPrintableASCIIChar s"

text \<open>The rules run in order and the first failure is returned; \<open>None\<close> is Go's \<open>nil\<close>.\<close>

definition validation_Validate :: "string \<Rightarrow> validation_error option" where
  "validation_Validate s =
     (if s = [] then Some ErrRequired
      else if \<not> IsPrintableASCII s then Some ErrPrintableASCII
      else None)"

section \<open>Semantic versions: \<open>semver.Make\<close>\<close>

datatype num_error = ErrSyntax | ErrRange

datatype semver_error =
    ErrVersionEmpty                    \<comment> \<open>"Version string empty"\<close>
  | ErrNoMajorMinorPatch               \<comment> \<open>"No Major.Minor.Patch elements found"\<close>
  | ErrMajorChars string
  | ErrMajorLeadingZeroes string
  | ErrMajorParse num_error
  | ErrMinorChars string
  | ErrMinorLeadingZeroes string
  | ErrMinorParse num_error
  | ErrPatchChars string
  | ErrPatchLeadingZeroes string
  | ErrPatchParse num_error
  | ErrPrereleaseEmpty
  | ErrPrereleaseLeadingZeroes string
  | ErrPrereleaseParse num_error
  | ErrPrereleaseChars string
  | ErrBuildEmpty
  | ErrBuildChars string

datatype PRVersion = PRNum "64 word" | PRStr string

record Version =
  Major :: "64 word"
  Minor :: "64 word"
  Patch :: "64 word"
  Pre :: "PRVersion list"
  Build :: "string list"

definition numbers :: string where
  "numbers = ''0123456789''"

definition alphas :: string where
  "alphas = ''abcdefghijklmnopqrstuvwxyzABCDEFGHIJKLMNOPQRSTUVWXYZ-''"

definition alphanum :: string where
  "alphanum = alphas @ numbers"

definition containsOnly :: "string \<Rightarrow> string \<Rightarrow> bool" where
  "containsOnly s cs = list_all (\<lambda>c. c \<in> set cs) s"

definition hasLeadingZeroes :: "string \<Rightarrow> bool" where
  "hasLeadingZeroes s = (length s > 1 \<and> hd s = CHR ''0'')"

text \<open>\<open>strconv.ParseUint(s, 10, 64)\<close>: the digits are accumulated from the left in a
  \<open>uint64\<close>; a byte that is no decimal digit is a syntax error; the value is out of range
  when \<open>n\<close> has reached the cutoff \<open>(2^64 - 1) / 10 + 1\<close> before the multiplication, or
  when adding the digit wraps around.\<close>

fun parseUintLoop :: "64 word \<Rightarrow> string \<Rightarrow> num_error + 64 word" where
  "parseUintLoop n [] = Inr n"
| "parseUintLoop n (c # cs) =
     (if \<not> (48 \<le> (of_char c :: nat) \<and> (of_char c :: nat) \<le> 57) then Inl ErrSyntax
      else if n \<ge> 0x199999999999999A then Inl ErrRange
      else let n10 = n * 10;
               n1 = n10 + of_nat ((of_char c :: nat) - 48)
           in if n1 < n10 then Inl ErrRange else parseUintLoop n1 cs)"

definition ParseUint :: "string \<Rightarrow> num_error + 64 word" where
  "ParseUint s = (if s = [] then Inl ErrSyntax else parseUintLoop 0 s)"

definition NewPRVersion :: "string \<Rightarrow> semver_error + PRVersion" where
  "NewPRVersion s =
     (if s = [] then Inl ErrPrereleaseEmpty
      else if containsOnly s numbers then
        (if hasLeadingZeroes s then Inl (ErrPrereleaseLeadingZeroes s)
         else case ParseUint s of Inl e \<Rightarrow> Inl (ErrPrereleaseParse e)
              | Inr num \<Rightarrow> Inr (PRNum num))
      else if containsOnly s alphanum then Inr (PRStr s)
      else Inl (ErrPrereleaseChars s))"

text \<open>The loop over the prerelease identifiers stops at the first error.\<close>

fun parsePrerelease :: "string list \<Rightarrow> semver_error + PRVersion list" where
  "parsePrerelease [] = Inr []"
| "parsePrerelease (p # ps) =
     (case NewPRVersion p of Inl e \<Rightarrow> Inl e
      | Inr v \<Rightarrow> (case parsePrerelease ps of Inl e \<Rightarrow> Inl e | Inr vs \<Rightarrow> Inr (v # vs)))"

text \<open>The loop over the build identifiers stops at the first error.\<close>

fun parseBuild :: "string list \<Rightarrow> semver_error + string list" where
  "parseBuild [] = Inr []"
| "parseBuild (b # bs) =
     (if b = [] then Inl ErrBuildEmpty
      else if \<not> containsOnly b alphanum then Inl (ErrBuildChars b)
      else (case parseBuild bs of Inl e \<Rightarrow> Inl e | Inr vs \<Rightarrow> Inr (b # vs)))"

text \<open>\<open>semver.Make\<close> is \<open>semver.Parse\<close>. The source splits into three fields at the
  first two dots, checks major and minor, cuts build metadata (after the first \<open>+\<close>) and
  prerelease (after the first \<open>-\<close> of what is left) off the third field, checks patch,
  then the prerelease and the build identifiers.\<close>

definition Make :: "string \<Rightarrow> semver_error + Version" where
  "Make s =
     (if s = [] then Inl ErrVersionEmpty
      else case SplitN s CHR ''.'' 3 of
        [major, minor, rest] \<Rightarrow>
          (if \<not> containsOnly major numbers then Inl (ErrMajorChars major)
           else if hasLeadingZeroes major then Inl (ErrMajorLeadingZeroes major)
           else case ParseUint major of Inl e \<Rightarrow> Inl (ErrMajorParse e)
           | Inr ma \<Rightarrow>
          (if \<not> containsOnly minor numbers then Inl (ErrMinorChars minor)
           else if hasLeadingZeroes minor then Inl (ErrMinorLeadingZeroes minor)
           else case ParseUint minor of Inl e \<Rightarrow> Inl (ErrMinorParse e)
           | Inr mi \<Rightarrow>
          (let build = (if CHR ''+'' \<in> set rest
                        then Split (tl (dropWhile (\<lambda>c. c \<noteq> CHR ''+'') rest)) CHR ''.''
                        else []);
               patchStr1 = takeWhile (\<lambda>c. c \<noteq> CHR ''+'') rest;
               prerelease = (if CHR ''-'' \<in> set patchStr1
                        then Split (tl (dropWhile (\<lambda>c. c \<noteq> CHR ''-'') patchStr1)) CHR ''.''
                        else []);
               patchStr = takeWhile (\<lambda>c. c \<noteq> CHR ''-'') patchStr1
           in if \<not> containsOnly patchStr numbers then Inl (ErrPatchChars patchStr)
              else if hasLeadingZeroes patchStr then Inl (ErrPatchLeadingZeroes patchStr)
              else case ParseUint patchStr of Inl e \<Rightarrow> Inl (ErrPatchParse e)
              | Inr pa \<Rightarrow>
                (case parsePrerelease prerelease of Inl e \<Rightarrow> Inl e
                 | Inr pre \<Rightarrow>
                (case parseBuild build of Inl e \<Rightarrow> Inl e
                 | Inr bld \<Rightarrow>
                   Inr \<lparr>Major = ma, Minor = mi, Patch = pa, Pre = pre, Build = bld\<rparr>)))))
      | _ \<Rightarrow> Inl ErrNoMajorMinorPatch)"

section \<open>The CSO path validator\<close>

text \<open>
  Every \<open>fmt.Errorf\<close> of the source is one constructor, carrying the values the message
  is formatted from, in the order of the format string. An index expression \<open>parts[i]\<close>
  or a slice expression \<open>parts[1:]\<close> out of range is a run-time panic of Go; it is the
  value \<open>PanicOutOfRange i n\<close> (index, length), so that a missing guard shows.
\<close>

datatype error =
    ErrSecretPath validation_error     \<comment> \<open>"unable to secret path: %v"\<close>
  | ErrPathParts                       \<comment> \<open>"invalid secret path, should contains more than 2 parts"\<close>
  | ErrRingValue string                \<comment> \<open>"invalid ring value (%s)"\<close>
  | ErrMetaPartCount
  | ErrMetaPath string validation_error
  | ErrInfraPartCount
  | ErrCloudProvider string            \<comment> \<open>"cloud provider (%s) not supported"\<close>
  | ErrInfraAccount string validation_error
  | ErrInfraRegion string string string  \<comment> \<open>"invalid region (%s) for account (%s) on cloud provider (%s)"\<close>
  | ErrPlatformPartCount
  | ErrPlatformQuality string
  | ErrPlatformName string validation_error
  | ErrPlatformRegion string           \<comment> \<open>"unable to find a region matching (%s)"\<close>
  | ErrPlatformService string validation_error
  | ErrProductPartCount
  | ErrProductName string validation_error
  | ErrProductVersion string string semver_error
  | ErrAppPartCount
  | ErrAppQuality string
  | ErrAppPlatformName string validation_error
  | ErrAppProductName string validation_error
  | ErrAppVersion string string semver_error
  | ErrAppComponent string string string validation_error
  | ErrArtifactPartCount
  | ErrArtifactType string validation_error
  | PanicOutOfRange nat nat

text \<open>A function of the source that returns \<open>error\<close> returns \<open>Inr ()\<close> for \<open>nil\<close>.\<close>

type_synonym result = "error + unit"

definition bindE :: "error + 'a \<Rightarrow> ('a \<Rightarrow> error + 'b) \<Rightarrow> error + 'b" where
  "bindE m f = (case m of Inl e \<Rightarrow> Inl e | Inr x \<Rightarrow> f x)"

text \<open>\<open>parts[i]\<close>.\<close>

definition index :: "string list \<Rightarrow> nat \<Rightarrow> error + string" where
  "index parts i = (if i < length parts then Inr (parts ! i) else Inl (PanicOutOfRange i (length parts)))"

text \<open>\<open>parts[i:]\<close>.\<close>

definition sliceFrom :: "string list \<Rightarrow> nat \<Rightarrow> error + string list" where
  "sliceFrom parts i = (if i \<le> length parts then Inr (drop i parts) else Inl (PanicOutOfRange i (length parts)))"

text \<open>Modelled from the spec: the type \<open>types.StringArray\<close> and its method \<open>Contains\<close>
  (package \<open>pkg/sdk/types\<close>) are not among the sources. The spec reads every use of it as
  membership (\<open>stage \<in> {production, staging, qa, dev}\<close>,
  \<open>region \<in> region-table[provider]\<close>).\<close>

definition Contains :: "string list \<Rightarrow> string \<Rightarrow> bool" where
  "Contains xs item = (item \<in> set xs)"

text \<open>Modelled from the spec: the function \<open>Clean\<close> of the validator's package is not among
  the sources. The spec says that it "collapses redundant separators and trims", that it is
  idempotent, and that no segment of a normalized path is empty: the slash-separated fields
  of the path that are not empty, joined by single slashes.\<close>

definition Clean :: "string \<Rightarrow> string" where
  "Clean path = Join (filter (\<lambda>seg. seg \<noteq> []) (Split path CHR ''/'')) ''/''"

subsection \<open>Meta\<close>

definition validateMeta :: "string list \<Rightarrow> result" where
  "validateMeta parts =
     (if length parts < 2 then Inl ErrMetaPartCount
      else bindE (index parts 0) (\<lambda>p0.
        case validation_Validate p0 of
          Some err \<Rightarrow> Inl (ErrMetaPath p0 err)
        | None \<Rightarrow> Inr ()))"

subsection \<open>Infrastructure\<close>

text \<open>The Go map \<open>cloudProviderRegions\<close>, as the list of its entries (the keys are
  distinct); \<open>cloudProviderRegions\<close> is the lookup.\<close>

definition cloudProviderRegionsTable :: "(string \<times> string list) list" where
  "cloudProviderRegionsTable =
    [(''aws'',
      [''global'', ''us-east-1'', ''us-east-2'', ''us-west-1'', ''us-west-2'', ''ap-east-1'',
       ''ap-south-1'', ''ap-northeast-3'', ''ap-northeast-2'', ''ap-southeast-1'',
       ''ap-southeast-2'', ''ap-northeast-1'', ''ca-central-1'', ''cn-north-1'',
       ''cn-northwest-1'', ''eu-central-1'', ''eu-west-1'', ''eu-west-2'', ''eu-west-3'',
       ''eu-north-1'', ''me-south-1'', ''sa-east-1'']),
     (''aws-us-gov'',
      [''us-gov-east-1'', ''us-gov-west-1'']),
     (''gcp'',
      [''global'', ''asia-east1'', ''asia-east2'', ''asia-northeast1'', ''asia-northeast2'',
       ''asia-south1'', ''asia-southeast1'', ''australia-southeast1'', ''europe-north1'',
       ''europe-west1'', ''europe-west2'', ''europe-west3'', ''europe-west4'', ''europe-west6'',
       ''northamerica-northeast1'', ''southamerica-east1'', ''us-central1'', ''us-east1'',
       ''us-east4'', ''us-west1'', ''us-west2'']),
     (''azure'',
      [''global'', ''eastasia'', ''southeastasia'', ''centralus'', ''eastus'', ''eastus2'',
       ''westus'', ''northcentralus'', ''southcentralus'', ''northeurope'', ''westeurope'',
       ''japanwest'', ''japaneast'', ''brazilsouth'', ''australiaeast'', ''australiasoutheast'',
       ''southindia'', ''centralindia'', ''westindia'', ''canadacentral'', ''canadaeast'',
       ''uksouth'', ''ukwest'', ''westcentralus'', ''westus2'', ''koreacentral'', ''koreasouth'',
       ''francecentral'', ''francesouth'', ''australiacentral'', ''australiacentral2'',
       ''uaecentral'', ''uaenorth'', ''southafricanorth'', ''southafricawest'',
       ''switzerlandnorth'', ''switzerlandwest'', ''germanynorth'', ''germanywestcentral'',
       ''norwaywest'', ''norwayeast'', ''brazilsoutheast'']),
     (''azure-us-gov'',
      [''usgovvirginia'', ''usgoviowa'', ''usgovarizona'', ''usgovtexas''])]"

definition cloudProviderRegions :: "string \<rightharpoonup> string list" where
  "cloudProviderRegions = map_of cloudProviderRegionsTable"

definition validateInfra :: "string list \<Rightarrow> result" where
  "validateInfra parts =
     (if length parts < 4 then Inl ErrInfraPartCount
      else bindE (index parts 0) (\<lambda>p0.
        case cloudProviderRegions p0 of
          None \<Rightarrow> Inl (ErrCloudProvider p0)
        | Some r \<Rightarrow>
            bindE (index parts 1) (\<lambda>p1.
              case validation_Validate p1 of
                Some err \<Rightarrow> Inl (ErrInfraAccount p1 err)
              | None \<Rightarrow>
                  bindE (index parts 2) (\<lambda>p2.
                    if \<not> Contains r p2 then Inl (ErrInfraRegion p2 p1 p0)
                    else Inr ()))))"

subsection \<open>Platform\<close>

definition platformQualityLevels :: "string list" where
  "platformQualityLevels = [''production'', ''staging'', ''qa'', ''dev'']"

text \<open>The loop over the map stops at the first region list that contains \<open>r\<close>; the
  flag it computes does not depend on the order Go visits the entries in.\<close>

definition regionFound :: "string \<Rightarrow> bool" where
  "regionFound r = list_ex (\<lambda>(provider, regions). Contains regions r) cloudProviderRegionsTable"

definition validatePlatform :: "string list \<Rightarrow> result" where
  "validatePlatform parts =
     (if length parts < 5 then Inl ErrPlatformPartCount
      else bindE (index parts 0) (\<lambda>p0.
        if \<not> Contains platformQualityLevels p0 then Inl (ErrPlatformQuality p0)
        else bindE (index parts 1) (\<lambda>p1.
          case validation_Validate p1 of
            Some err \<Rightarrow> Inl (ErrPlatformName p1 err)
          | None \<Rightarrow>
              bindE (index parts 2) (\<lambda>r.
                if \<not> regionFound r then Inl (ErrPlatformRegion r)
                else bindE (index parts 3) (\<lambda>p3.
                  case validation_Validate p3 of
                    Some err \<Rightarrow> Inl (ErrPlatformService p1 err)
                  | None \<Rightarrow> Inr ())))))"

subsection \<open>Product\<close>

definition validateSemVer :: "string \<Rightarrow> semver_error + unit" where
  "validateSemVer version =
     (case Make (TrimPrefix (TrimSpace (ToLower version)) ''v'') of
        Inl err \<Rightarrow> Inl err
      | Inr v \<Rightarrow> Inr ())"

definition validateProduct :: "string list \<Rightarrow> result" where
  "validateProduct parts =
     (if length parts < 3 then Inl ErrProductPartCount
      else bindE (index parts 0) (\<lambda>p0.
        case validation_Validate p0 of
          Some err \<Rightarrow> Inl (ErrProductName p0 err)
        | None \<Rightarrow>
            bindE (index parts 1) (\<lambda>p1.
              case validateSemVer p1 of
                Inl err \<Rightarrow> Inl (ErrProductVersion p0 p1 err)
              | Inr u \<Rightarrow> Inr ())))"

subsection \<open>Application\<close>

definition validateApplication :: "string list \<Rightarrow> result" where
  "validateApplication parts =
     (if length parts < 6 then Inl ErrAppPartCount
      else bindE (index parts 0) (\<lambda>p0.
        if \<not> Contains platformQualityLevels p0 then Inl (ErrAppQuality p0)
        else bindE (index parts 1) (\<lambda>p1.
          case validation_Validate p1 of
            Some err \<Rightarrow> Inl (ErrAppPlatformName p1 err)
          | None \<Rightarrow>
              bindE (index parts 2) (\<lambda>p2.
                case validation_Validate p2 of
                  Some err \<Rightarrow> Inl (ErrAppProductName p2 err)
                | None \<Rightarrow>
                    bindE (index parts 3) (\<lambda>p3.
                      case validateSemVer p3 of
                        Inl err \<Rightarrow> Inl (ErrAppVersion p2 p3 err)
                      | Inr u \<Rightarrow>
                          bindE (index parts 4) (\<lambda>p4.
                            case validation_Validate p4 of
                              Some err \<Rightarrow> Inl (ErrAppComponent p4 p3 p2 err)
                            | None \<Rightarrow> Inr ()))))))"

subsection \<open>Artifact\<close>

text \<open>The \<open>Artifact\<close> message has the fields \<open>Type\<close>, \<open>Id\<close> and \<open>Key\<close>, in the order
  of the path \<open>artifact/<type>/<id>/<key>\<close>: after the ring selector, \<open>parts[0]\<close> is the
  type and \<open>parts[1]\<close> the id. The source validates \<open>parts[1]\<close>, under the comment
  "Validate type" and with the message "unable to validate artifact type".\<close>

definition validateArtifact :: "string list \<Rightarrow> result" where
  "validateArtifact parts =
     (if length parts < 2 then Inl ErrArtifactPartCount
      else bindE (index parts 1) (\<lambda>p1.
        case validation_Validate p1 of
          Some err \<Rightarrow> Inl (ErrArtifactType p1 err)
        | None \<Rightarrow> Inr ()))"

subsection \<open>Validate\<close>

definition validators :: "string \<rightharpoonup> (string list \<Rightarrow> result)" where
  "validators =
     [''meta'' \<mapsto> validateMeta,
      ''infra'' \<mapsto> validateInfra,
      ''platform'' \<mapsto> validatePlatform,
      ''product'' \<mapsto> validateProduct,
      ''app'' \<mapsto> validateApplication,
      ''artifact'' \<mapsto> validateArtifact]"

definition Validate :: "string \<Rightarrow> result" where
  "Validate path =
     (case validation_Validate path of
        Some err \<Rightarrow> Inl (ErrSecretPath err)
      | None \<Rightarrow>
          (let cleanPath = Clean path;
               parts = Split cleanPath CHR ''/''
           in if length parts < 2 then Inl ErrPathParts
              else bindE (index parts 0) (\<lambda>ring.
                case validators ring of
                  None \<Rightarrow> Inl (ErrRingValue ring)
                | Some v \<Rightarrow> bindE (sliceFrom parts 1) v)))"

subsection \<open>Outcomes\<close>

text \<open>Modelled from the spec: the source returns plain \<open>fmt.Errorf\<close> values and has no
  error types. The spec's error handling section sorts the failures of \<open>Validate\<close> into
  three kinds: a malformed raw path (empty, not printable ASCII, too few segments), an
  unknown ring selector, and a ring-specific field that fails its rule.\<close>

datatype error_kind = PathSyntaxError | UnknownRingError | RingValidationError | RuntimePanic

fun errorKind :: "error \<Rightarrow> error_kind" where
  "errorKind (ErrSecretPath err) = PathSyntaxError"
| "errorKind ErrPathParts = PathSyntaxError"
| "errorKind (ErrRingValue ring) = UnknownRingError"
| "errorKind (PanicOutOfRange i n) = RuntimePanic"
| "errorKind e = RingValidationError"

text \<open>The outcome of a validation: \<open>None\<close> for success, the kind of the error otherwise.\<close>

definition outcome :: "result \<Rightarrow> error_kind option" where
  "outcome r = (case r of Inl e \<Rightarrow> Some (errorKind e) | Inr u \<Rightarrow> None)"

section \<open>The secret value codec\<close>

text \<open>
  \<open>Pack\<close> and \<open>Unpack\<close> hand their argument to \<open>asn1.Marshal\<close> and \<open>asn1.Unmarshal\<close> of
  Go's \<open>encoding/asn1\<close>. The secret value is the pair of the spec, a type tag and a body:
  the Go struct with the two exported fields of the \<open>Value\<close> message, \<open>Type string\<close> and
  \<open>Body []byte\<close> (without the bookkeeping fields of the protobuf runtime, which are not
  exported and which \<open>encoding/asn1\<close> refuses). Here a Go string is the list of its bytes,
  because the codec computes with them.
\<close>

type_synonym byte = "8 word"

record SecretValue =
  Type :: "byte list"
  Body :: "byte list"

datatype asn1_error =
    ErrStringNotUTF8              \<comment> \<open>Marshal: "asn1: string not valid UTF-8"\<close>
  | ErrSequenceTruncated          \<comment> \<open>"sequence truncated"\<close>
  | ErrInternalTagAndLength       \<comment> \<open>"asn1: internal error in parseTagAndLength"\<close>
  | ErrBase128TooLarge            \<comment> \<open>"base 128 integer too large"\<close>
  | ErrBase128Truncated           \<comment> \<open>"truncated base 128 integer"\<close>
  | ErrNonMinimalTag              \<comment> \<open>"non-minimal tag"\<close>
  | ErrTruncatedTagOrLength       \<comment> \<open>"truncated tag or length"\<close>
  | ErrIndefiniteLength           \<comment> \<open>"indefinite length found (not DER)"\<close>
  | ErrLengthTooLarge             \<comment> \<open>"length too large"\<close>
  | ErrSuperfluousLeadingZeros    \<comment> \<open>"superfluous leading zeros in length"\<close>
  | ErrNonMinimalLength           \<comment> \<open>"non-minimal length"\<close>
  | ErrTagsDontMatch              \<comment> \<open>"tags don't match ..."\<close>
  | ErrDataTruncated              \<comment> \<open>"data truncated"\<close>
  | ErrPrintableStringChar        \<comment> \<open>"PrintableString contains invalid character"\<close>
  | ErrNumericStringChar          \<comment> \<open>"NumericString contains invalid character"\<close>
  | ErrIA5StringChar              \<comment> \<open>"IA5String contains invalid character"\<close>
  | ErrInvalidUTF8String          \<comment> \<open>"asn1: invalid UTF-8 string"\<close>
  | ErrOddLengthBMPString         \<comment> \<open>"pkcs12: odd-length BMP string"\<close>

datatype codec_error =
    ErrPack asn1_error            \<comment> \<open>"unable to pack secret value: %w"\<close>
  | ErrUnpack asn1_error          \<comment> \<open>"unable to upack secret value: %w"\<close>

subsection \<open>Tags and lengths\<close>

text \<open>The universal tag numbers the codec meets.\<close>

definition TagUTF8String :: nat where "TagUTF8String = 12"
definition TagSequence :: nat where "TagSequence = 16"
definition TagNumericString :: nat where "TagNumericString = 18"
definition TagPrintableString :: nat where "TagPrintableString = 19"
definition TagT61String :: nat where "TagT61String = 20"
definition TagIA5String :: nat where "TagIA5String = 22"
definition TagGeneralString :: nat where "TagGeneralString = 27"
definition TagBMPString :: nat where "TagBMPString = 30"
definition TagOctetString :: nat where "TagOctetString = 4"
definition ClassUniversal :: nat where "ClassUniversal = 0"

record tagAndLength =
  tclass :: nat
  ttag :: nat
  tlength :: nat
  tisCompound :: bool

text \<open>\<open>lengthLength(i)\<close>: the number of bytes of \<open>i\<close> in base 256.\<close>

function lengthLength :: "nat \<Rightarrow> nat" where
  "lengthLength i = (if i > 255 then Suc (lengthLength (i div 256)) else 1)"
  by pat_completeness auto
termination
  by (relation "measure (\<lambda>i. i)") auto

text \<open>\<open>appendLength\<close>: the loop \<open>for ; n > 0; n--\<close> appends \<open>byte(i >> ((n-1)*8))\<close>.\<close>

fun appendLengthLoop :: "nat \<Rightarrow> nat \<Rightarrow> byte list" where
  "appendLengthLoop 0 i = []"
| "appendLengthLoop (Suc n) i = of_nat (i div 2 ^ (n * 8)) # appendLengthLoop n i"

definition appendLength :: "nat \<Rightarrow> byte list" where
  "appendLength i = appendLengthLoop (lengthLength i) i"

text \<open>\<open>base128IntLength\<close> and \<open>appendBase128Int\<close>, for tag numbers of 31 and more.\<close>

function base128Loop :: "nat \<Rightarrow> nat" where
  "base128Loop i = (if i > 0 then Suc (base128Loop (i div 128)) else 0)"
  by pat_completeness auto
termination
  by (relation "measure (\<lambda>i. i)") auto

definition base128IntLength :: "nat \<Rightarrow> nat" where
  "base128IntLength n = (if n = 0 then 1 else base128Loop n)"

fun appendBase128Loop :: "nat \<Rightarrow> nat \<Rightarrow> byte list" where
  "appendBase128Loop 0 n = []"
| "appendBase128Loop (Suc i) n =
     (let o1 = (of_nat (n div 2 ^ (i * 7)) :: byte) AND 0x7f;
          o2 = (if i \<noteq> 0 then o1 OR 0x80 else o1)
      in o2 # appendBase128Loop i n)"

definition appendBase128Int :: "nat \<Rightarrow> byte list" where
  "appendBase128Int n = appendBase128Loop (base128IntLength n) n"

text \<open>\<open>appendTagAndLength\<close>: the identifier octet (class in the two top bits, \<open>0x20\<close> for a
  constructed value, the tag number in the low five bits or \<open>0x1f\<close> and the number in base
  128), then the length, in one byte below 128 and else as \<open>0x80 | n\<close> and \<open>n\<close> bytes.\<close>

definition appendTagAndLength :: "tagAndLength \<Rightarrow> byte list" where
  "appendTagAndLength t =
     (let b0 = push_bit 6 (of_nat (tclass t) :: byte);
          b = (if tisCompound t then b0 OR 0x20 else b0);
          ident = (if ttag t \<ge> 31 then (b OR 0x1f) # appendBase128Int (ttag t)
                   else [b OR of_nat (ttag t)])
      in ident @
         (if tlength t \<ge> 128
          then (0x80 OR of_nat (lengthLength (tlength t))) # appendLength (tlength t)
          else [of_nat (tlength t)]))"

text \<open>\<open>parseBase128Int\<close>: at most five bytes of seven bits; the value has to fit 31 bits.
  (Later releases of Go also refuse a first byte \<open>0x80\<close>. Either way the result is an error
  or a number that \<open>parseTagAndLength\<close> accepts only from 31 on.)\<close>

fun parseBase128Loop :: "nat \<Rightarrow> nat \<Rightarrow> byte list \<Rightarrow> asn1_error + (nat \<times> byte list)" where
  "parseBase128Loop shifted ret64 [] = Inl ErrBase128Truncated"
| "parseBase128Loop shifted ret64 (b # bytes) =
     (if shifted = 5 then Inl ErrBase128TooLarge
      else let r = ret64 * 128 + unat (b AND 0x7f)
           in if b AND 0x80 = 0
              then (if r > 2 ^ 31 - 1 then Inl ErrBase128TooLarge else Inr (r, bytes))
              else parseBase128Loop (Suc shifted) r bytes)"

definition parseBase128Int :: "byte list \<Rightarrow> asn1_error + (nat \<times> byte list)" where
  "parseBase128Int bytes = parseBase128Loop 0 0 bytes"

text \<open>The loop over the \<open>numBytes\<close> length bytes of \<open>parseTagAndLength\<close>: the length may
  not reach \<open>1<<23\<close> before it is shifted, and may not be zero after a byte was added.\<close>

fun parseLengthLoop :: "nat \<Rightarrow> nat \<Rightarrow> byte list \<Rightarrow> asn1_error + (nat \<times> byte list)" where
  "parseLengthLoop 0 len bytes = Inr (len, bytes)"
| "parseLengthLoop (Suc n) len [] = Inl ErrTruncatedTagOrLength"
| "parseLengthLoop (Suc n) len (b # bytes) =
     (if len \<ge> 2 ^ 23 then Inl ErrLengthTooLarge
      else let len1 = len * 256 + unat b
           in if len1 = 0 then Inl ErrSuperfluousLeadingZeros
              else parseLengthLoop n len1 bytes)"

text \<open>\<open>parseTagAndLength\<close>, on the bytes from the offset on; the result holds the bytes
  after the header.\<close>

definition parseTagAndLength :: "byte list \<Rightarrow> asn1_error + (tagAndLength \<times> byte list)" where
  "parseTagAndLength bytes =
     (case bytes of
        [] \<Rightarrow> Inl ErrInternalTagAndLength
      | b # bytes1 \<Rightarrow>
          (case (if unat (b AND 0x1f) = 0x1f
                 then (case parseBase128Int bytes1 of
                         Inl e \<Rightarrow> Inl e
                       | Inr (t, bytes2) \<Rightarrow>
                           if t < 0x1f then Inl ErrNonMinimalTag else Inr (t, bytes2))
                 else Inr (unat (b AND 0x1f), bytes1)) of
             Inl e \<Rightarrow> Inl e
           | Inr (tagNumber, bytes2) \<Rightarrow>
               (case bytes2 of
                  [] \<Rightarrow> Inl ErrTruncatedTagOrLength
                | l # bytes3 \<Rightarrow>
                    if l AND 0x80 = 0
                    then Inr (\<lparr>tclass = unat (drop_bit 6 b), ttag = tagNumber,
                               tlength = unat (l AND 0x7f),
                               tisCompound = (b AND 0x20 = 0x20)\<rparr>, bytes3)
                    else if unat (l AND 0x7f) = 0 then Inl ErrIndefiniteLength
                    else (case parseLengthLoop (unat (l AND 0x7f)) 0 bytes3 of
                            Inl e \<Rightarrow> Inl e
                          | Inr (len, bytes4) \<Rightarrow>
                              if len < 0x80 then Inl ErrNonMinimalLength
                              else Inr (\<lparr>tclass = unat (drop_bit 6 b), ttag = tagNumber,
                                         tlength = len,
                                         tisCompound = (b AND 0x20 = 0x20)\<rparr>, bytes4)))))"

subsection \<open>String types\<close>

text \<open>\<open>isPrintable\<close>: the characters of a PrintableString; the asterisk and the ampersand
  count when the flag allows them (parsing allows both, marshalling neither).\<close>

definition isPrintable :: "byte \<Rightarrow> bool \<Rightarrow> bool \<Rightarrow> bool" where
  "isPrintable b asterisk ampersand =
     (0x61 \<le> b \<and> b \<le> 0x7a \<or>
      0x41 \<le> b \<and> b \<le> 0x5a \<or>
      0x30 \<le> b \<and> b \<le> 0x39 \<or>
      0x27 \<le> b \<and> b \<le> 0x29 \<or>
      0x2b \<le> b \<and> b \<le> 0x2f \<or>
      b = 0x20 \<or> b = 0x3a \<or> b = 0x3d \<or> b = 0x3f \<or>
      (asterisk \<and> b = 0x2a) \<or>
      (ampersand \<and> b = 0x26))"

text \<open>\<open>utf8.Valid\<close>: for a first byte beyond ASCII, the length of the sequence and the
  range of the second byte; the later bytes are continuation bytes \<open>0x80..0xBF\<close>.\<close>

definition acceptRange :: "byte \<Rightarrow> (nat \<times> byte \<times> byte) option" where
  "acceptRange b =
     (if 0xC2 \<le> b \<and> b \<le> 0xDF then Some (2, 0x80, 0xBF)
      else if b = 0xE0 then Some (3, 0xA0, 0xBF)
      else if 0xE1 \<le> b \<and> b \<le> 0xEC then Some (3, 0x80, 0xBF)
      else if b = 0xED then Some (3, 0x80, 0x9F)
      else if 0xEE \<le> b \<and> b \<le> 0xEF then Some (3, 0x80, 0xBF)
      else if b = 0xF0 then Some (4, 0x90, 0xBF)
      else if 0xF1 \<le> b \<and> b \<le> 0xF3 then Some (4, 0x80, 0xBF)
      else if b = 0xF4 then Some (4, 0x80, 0x8F)
      else None)"

function utf8Valid :: "byte list \<Rightarrow> bool" where
  "utf8Valid [] = True"
| "utf8Valid (b # bs) =
     (if b < 0x80 then utf8Valid bs
      else case acceptRange b of
        None \<Rightarrow> False
      | Some (n, lo, hi) \<Rightarrow>
          n - 1 \<le> length bs \<and> lo \<le> bs ! 0 \<and> bs ! 0 \<le> hi \<and>
          (3 \<le> n \<longrightarrow> 0x80 \<le> bs ! 1 \<and> bs ! 1 \<le> 0xBF) \<and>
          (4 \<le> n \<longrightarrow> 0x80 \<le> bs ! 2 \<and> bs ! 2 \<le> 0xBF) \<and>
          utf8Valid (drop (n - 1) bs))"
  by pat_completeness auto
termination
  by (relation "measure length") auto

text \<open>\<open>parseBMPString\<close>: big-endian UTF-16, with an optional terminator, turned into the
  UTF-8 of a Go string (\<open>utf16.Decode\<close>, then the conversion of the runes to a string).\<close>

fun bmpUnits :: "byte list \<Rightarrow> nat list" where
  "bmpUnits (b0 # b1 # bs) = (unat b0 * 256 + unat b1) # bmpUnits bs"
| "bmpUnits bs = []"

fun utf16Decode :: "nat list \<Rightarrow> nat list" where
  "utf16Decode [] = []"
| "utf16Decode [r] = [if r < 0xd800 \<or> 0xe000 \<le> r then r else 0xFFFD]"
| "utf16Decode (r # r2 # rs) =
     (if r < 0xd800 \<or> 0xe000 \<le> r then r # utf16Decode (r2 # rs)
      else if r < 0xdc00 \<and> 0xdc00 \<le> r2 \<and> r2 < 0xe000
        then ((r - 0xd800) * 1024 + (r2 - 0xdc00) + 0x10000) # utf16Decode rs
      else 0xFFFD # utf16Decode (r2 # rs))"

definition encodeRune :: "nat \<Rightarrow> byte list" where
  "encodeRune r =
     (if r \<le> 0x7F then [of_nat r]
      else if r \<le> 0x7FF then [0xC0 OR of_nat (r div 64), 0x80 OR (of_nat r AND 0x3F)]
      else if r > 0x10FFFF \<or> (0xD800 \<le> r \<and> r \<le> 0xDFFF) then [0xEF, 0xBF, 0xBD]
      else if r \<le> 0xFFFF
        then [0xE0 OR of_nat (r div 4096), 0x80 OR (of_nat (r div 64) AND 0x3F),
              0x80 OR (of_nat r AND 0x3F)]
      else [0xF0 OR of_nat (r div 262144), 0x80 OR (of_nat (r div 4096) AND 0x3F),
            0x80 OR (of_nat (r div 64) AND 0x3F), 0x80 OR (of_nat r AND 0x3F)])"

definition parseBMPString :: "byte list \<Rightarrow> asn1_error + byte list" where
  "parseBMPString bmpString =
     (if length bmpString mod 2 \<noteq> 0 then Inl ErrOddLengthBMPString
      else let l = length bmpString;
               stripped = (if l \<ge> 2 \<and> bmpString ! (l - 1) = 0 \<and> bmpString ! (l - 2) = 0
                           then take (l - 2) bmpString else bmpString)
           in Inr (concat (map encodeRune (utf16Decode (bmpUnits stripped)))))"

definition parsePrintableString :: "byte list \<Rightarrow> asn1_error + byte list" where
  "parsePrintableString bytes =
     (if list_all (\<lambda>b. isPrintable b True True) bytes then Inr bytes
      else Inl ErrPrintableStringChar)"

definition parseNumericString :: "byte list \<Rightarrow> asn1_error + byte list" where
  "parseNumericString bytes =
     (if list_all (\<lambda>b. 0x30 \<le> b \<and> b \<le> 0x39 \<or> b = 0x20) bytes then Inr bytes
      else Inl ErrNumericStringChar)"

definition parseIA5String :: "byte list \<Rightarrow> asn1_error + byte list" where
  "parseIA5String bytes =
     (if list_all (\<lambda>b. b < 0x80) bytes then Inr bytes else Inl ErrIA5StringChar)"

definition parseT61String :: "byte list \<Rightarrow> asn1_error + byte list" where
  "parseT61String bytes = Inr bytes"

definition parseUTF8String :: "byte list \<Rightarrow> asn1_error + byte list" where
  "parseUTF8String bytes = (if utf8Valid bytes then Inr bytes else Inl ErrInvalidUTF8String)"

subsection \<open>Unmarshal\<close>

text \<open>The Go types of the value and of its fields, and \<open>getUniversalType\<close> on them: the
  universal tag and whether the encoding is constructed.\<close>

datatype go_kind = KindString | KindByteSlice | KindStruct

fun getUniversalType :: "go_kind \<Rightarrow> nat \<times> bool" where
  "getUniversalType KindString = (TagPrintableString, False)"
| "getUniversalType KindByteSlice = (TagOctetString, False)"
| "getUniversalType KindStruct = (TagSequence, True)"

text \<open>The part of \<open>parseField\<close> that all types share (no field of the value has a
  parameter): at the end of the data the sequence is truncated; the header is parsed; every
  ASN.1 string type is accepted for a Go string; class, tag and the constructed bit have to
  be the expected ones; the content has to be there. The result is the tag, the content and
  the bytes after it.\<close>

definition parseFieldHeader ::
    "go_kind \<Rightarrow> byte list \<Rightarrow> asn1_error + (nat \<times> byte list \<times> byte list)" where
  "parseFieldHeader kind bytes =
     (if bytes = [] then Inl ErrSequenceTruncated
      else case parseTagAndLength bytes of
        Inl e \<Rightarrow> Inl e
      | Inr (t, rest) \<Rightarrow>
          (let (universalTag0, compoundType) = getUniversalType kind;
               universalTag =
                 (if universalTag0 = TagPrintableString \<and> tclass t = ClassUniversal \<and>
                     ttag t \<in> {TagIA5String, TagGeneralString, TagT61String, TagUTF8String,
                                TagNumericString, TagBMPString}
                  then ttag t else universalTag0)
           in if tclass t \<noteq> ClassUniversal \<or> ttag t \<noteq> universalTag \<or>
                 tisCompound t \<noteq> compoundType
              then Inl ErrTagsDontMatch
              else if tlength t > length rest then Inl ErrDataTruncated
              else Inr (universalTag, take (tlength t) rest, drop (tlength t) rest)))"

text \<open>\<open>parseField\<close> for a field of type \<open>string\<close>.\<close>

definition parseFieldString :: "byte list \<Rightarrow> asn1_error + (byte list \<times> byte list)" where
  "parseFieldString bytes =
     (case parseFieldHeader KindString bytes of
        Inl e \<Rightarrow> Inl e
      | Inr (universalTag, innerBytes, rest) \<Rightarrow>
          (case (if universalTag = TagPrintableString then parsePrintableString innerBytes
                 else if universalTag = TagNumericString then parseNumericString innerBytes
                 else if universalTag = TagIA5String then parseIA5String innerBytes
                 else if universalTag = TagT61String then parseT61String innerBytes
                 else if universalTag = TagUTF8String then parseUTF8String innerBytes
                 else if universalTag = TagGeneralString then parseT61String innerBytes
                 else parseBMPString innerBytes) of
             Inl e \<Rightarrow> Inl e
           | Inr v \<Rightarrow> Inr (v, rest)))"

text \<open>\<open>parseField\<close> for a field of type \<open>[]byte\<close>: the content of the OCTET STRING.\<close>

definition parseFieldBytes :: "byte list \<Rightarrow> asn1_error + (byte list \<times> byte list)" where
  "parseFieldBytes bytes =
     (case parseFieldHeader KindByteSlice bytes of
        Inl e \<Rightarrow> Inl e
      | Inr (universalTag, innerBytes, rest) \<Rightarrow> Inr (innerBytes, rest))"

text \<open>\<open>parseField\<close> for the struct: a SEQUENCE whose content holds the fields in order;
  bytes after the last field, inside the SEQUENCE, are allowed.\<close>

definition parseFieldValue :: "byte list \<Rightarrow> asn1_error + (SecretValue \<times> byte list)" where
  "parseFieldValue bytes =
     (case parseFieldHeader KindStruct bytes of
        Inl e \<Rightarrow> Inl e
      | Inr (universalTag, innerBytes, rest) \<Rightarrow>
          (case parseFieldString innerBytes of
             Inl e \<Rightarrow> Inl e
           | Inr (ty, innerBytes1) \<Rightarrow>
               (case parseFieldBytes innerBytes1 of
                  Inl e \<Rightarrow> Inl e
                | Inr (body, innerBytes2) \<Rightarrow> Inr (\<lparr>Type = ty, Body = body\<rparr>, rest))))"

text \<open>\<open>asn1.Unmarshal(b, &val)\<close>: the value and the rest of the input.\<close>

definition Unmarshal :: "byte list \<Rightarrow> asn1_error + (SecretValue \<times> byte list)" where
  "Unmarshal b = parseFieldValue b"

subsection \<open>Marshal\<close>

text \<open>\<open>makeField\<close> for a string without parameters: a PrintableString when every
  character is printable, a UTF8String when the string is valid UTF-8, an error otherwise;
  the content is the bytes of the string.\<close>

definition makeFieldString :: "byte list \<Rightarrow> asn1_error + byte list" where
  "makeFieldString s =
     (if list_all (\<lambda>b. isPrintable b False False) s
      then Inr (appendTagAndLength
                  \<lparr>tclass = ClassUniversal, ttag = TagPrintableString, tlength = length s,
                   tisCompound = False\<rparr> @ s)
      else if \<not> utf8Valid s then Inl ErrStringNotUTF8
      else Inr (appendTagAndLength
                  \<lparr>tclass = ClassUniversal, ttag = TagUTF8String, tlength = length s,
                   tisCompound = False\<rparr> @ s))"

text \<open>\<open>makeField\<close> for a byte slice: an OCTET STRING.\<close>

definition makeFieldBytes :: "byte list \<Rightarrow> byte list" where
  "makeFieldBytes bs =
     appendTagAndLength
       \<lparr>tclass = ClassUniversal, ttag = TagOctetString, tlength = length bs,
        tisCompound = False\<rparr> @ bs"

text \<open>\<open>makeField\<close> for the struct: a SEQUENCE of the fields, in order.\<close>

definition makeFieldValue :: "SecretValue \<Rightarrow> asn1_error + byte list" where
  "makeFieldValue v =
     (case makeFieldString (Type v) of
        Inl e \<Rightarrow> Inl e
      | Inr ty \<Rightarrow>
          (let body = ty @ makeFieldBytes (Body v)
           in Inr (appendTagAndLength
                     \<lparr>tclass = ClassUniversal, ttag = TagSequence, tlength = length body,
                      tisCompound = True\<rparr> @ body)))"

definition Marshal :: "SecretValue \<Rightarrow> asn1_error + byte list" where
  "Marshal val = makeFieldValue val"

subsection \<open>Pack and Unpack\<close>

definition Pack :: "SecretValue \<Rightarrow> codec_error + byte list" where
  "Pack v =
     (case Marshal v of
        Inl err \<Rightarrow> Inl (ErrPack err)
      | Inr payload \<Rightarrow> Inr payload)"

text \<open>\<open>Unpack\<close> drops the rest that \<open>Unmarshal\<close> returns; the result is the value that
  \<open>out\<close> holds after a call that returned \<open>nil\<close>.\<close>

definition Unpack :: "byte list \<Rightarrow> codec_error + SecretValue" where
  "Unpack bytes =
     (case Unmarshal bytes of
        Inl err \<Rightarrow> Inl (ErrUnpack err)
      | Inr (out, rest) \<Rightarrow> Inr out)"

section \<open>Properties of the path validator\<close>

subsection \<open>Auxiliary facts\<close>

lemma bindE_Inr [simp]: "bindE (Inr x) f = f x" by (simp add: bindE_def)
lemma bindE_Inl [simp]: "bindE (Inl e) f = Inl e" by (simp add: bindE_def)
lemma index_in_range [simp]: "i < length parts \<Longrightarrow> index parts i = Inr (parts ! i)" by (simp add: index_def)
lemma sliceFrom_in_range [simp]: "i \<le> length parts \<Longrightarrow> sliceFrom parts i = Inr (drop i parts)" by (simp add: sliceFrom_def)

lemma Split_not_Nil [simp]: "Split s sep \<noteq> []"
  by (induction s) (auto split: list.splits)

lemma validators_cases:
  "validators ring = Some v \<Longrightarrow>
     (ring = ''meta'' \<and> v = validateMeta) \<or> (ring = ''infra'' \<and> v = validateInfra) \<or>
     (ring = ''platform'' \<and> v = validatePlatform) \<or> (ring = ''product'' \<and> v = validateProduct) \<or>
     (ring = ''app'' \<and> v = validateApplication) \<or> (ring = ''artifact'' \<and> v = validateArtifact)"
  unfolding validators_def by (simp split: if_splits)

lemma validators_simps:
  "validators ''meta'' = Some validateMeta"
  "validators ''infra'' = Some validateInfra"
  "validators ''platform'' = Some validatePlatform"
  "validators ''product'' = Some validateProduct"
  "validators ''app'' = Some validateApplication"
  "validators ''artifact'' = Some validateArtifact"
  unfolding validators_def by simp_all

lemma Validate_ring:
  assumes "validation_Validate path = None"
    and "Split (Clean path) CHR ''/'' = ring # parts" and "parts \<noteq> []"
  shows "Validate path = (case validators ring of None \<Rightarrow> Inl (ErrRingValue ring) | Some v \<Rightarrow> v parts)"
  using assms by (cases parts) (simp_all add: Validate_def Let_def split: option.splits)

lemma validateMeta_no_panic: "validateMeta parts \<noteq> Inl (PanicOutOfRange i n)"
  by (auto simp: validateMeta_def index_def bindE_def split: option.splits)
lemma validateInfra_no_panic: "validateInfra parts \<noteq> Inl (PanicOutOfRange i n)"
  by (auto simp: validateInfra_def index_def bindE_def split: option.splits)
lemma validatePlatform_no_panic: "validatePlatform parts \<noteq> Inl (PanicOutOfRange i n)"
  by (auto simp: validatePlatform_def index_def bindE_def split: option.splits)
lemma validateProduct_no_panic: "validateProduct parts \<noteq> Inl (PanicOutOfRange i n)"
  by (auto simp: validateProduct_def index_def bindE_def split: option.splits sum.splits)
lemma validateApplication_no_panic: "validateApplication parts \<noteq> Inl (PanicOutOfRange i n)"
  by (auto simp: validateApplication_def index_def bindE_def split: option.splits sum.splits)
lemma validateArtifact_no_panic: "validateArtifact parts \<noteq> Inl (PanicOutOfRange i n)"
  by (auto simp: validateArtifact_def index_def bindE_def split: option.splits)

lemma validators_no_panic:
  "validators ring = Some v \<Longrightarrow> v parts \<noteq> Inl (PanicOutOfRange i n)"
  using validateMeta_no_panic validateInfra_no_panic validatePlatform_no_panic
    validateProduct_no_panic validateApplication_no_panic validateArtifact_no_panic
  by (auto dest!: validators_cases)

lemma Validate_no_panic: "Validate path \<noteq> Inl (PanicOutOfRange i n)"
proof (cases "validation_Validate path")
  case (Some err)
  then show ?thesis by (simp add: Validate_def)
next
  case None
  show ?thesis
  proof (cases "Split (Clean path) CHR ''/''")
    case Nil
    then show ?thesis by simp
  next
    case (Cons ring parts)
    show ?thesis
    proof (cases "parts = []")
      case True
      with None Cons show ?thesis by (simp add: Validate_def)
    next
      case False
      from Validate_ring [OF None Cons False] show ?thesis
        by (auto split: option.splits dest: validators_no_panic)
    qed
  qed
qed


lemma validators_no_path_error:
  "validators ring = Some v \<Longrightarrow>
     v parts \<noteq> Inl (ErrSecretPath err) \<and> v parts \<noteq> Inl ErrPathParts"
  by (auto dest!: validators_cases
        simp: validateMeta_def validateInfra_def validatePlatform_def validateProduct_def
          validateApplication_def validateArtifact_def index_def bindE_def
        split: option.splits sum.splits if_splits)

subsection \<open>Malformed paths\<close>

text \<open>
  Claim C4. \<open>Validate\<close> returns an error, and does not panic, when the raw path is empty,
  when it holds a byte that is not printable ASCII, and when the normalized path has fewer
  than two segments. The error is the one of the first lines of \<open>Validate\<close>
  (\<open>ErrSecretPath\<close>, \<open>ErrPathParts\<close>), which no ring validator returns: the path is
  refused before a ring validator is looked up.
\<close>

theorem C4_malformed_path_rejected:
  "(path = [] \<longrightarrow> Validate path = Inl (ErrSecretPath ErrRequired)) \<and>
   (path \<noteq> [] \<and> \<not> IsPrintableASCII path \<longrightarrow>
      Validate path = Inl (ErrSecretPath ErrPrintableASCII)) \<and>
   (path \<noteq> [] \<and> IsPrintableASCII path \<and> length (Split (Clean path) CHR ''/'') < 2 \<longrightarrow>
      Validate path = Inl ErrPathParts) \<and>
   (validators ring = Some v \<longrightarrow>
      v parts \<noteq> Inl (ErrSecretPath err) \<and> v parts \<noteq> Inl ErrPathParts)"
  using validators_no_path_error [of ring v parts err]
  by (simp add: Validate_def validation_Validate_def Let_def)

theorem C4_malformed_path_rejected_witness:
  "Validate [] = Inl (ErrSecretPath ErrRequired) \<and>
   ''meta/a'' @ [CHR 0x09] \<noteq> [] \<and> \<not> IsPrintableASCII (''meta/a'' @ [CHR 0x09]) \<and>
   Validate (''meta/a'' @ [CHR 0x09]) = Inl (ErrSecretPath ErrPrintableASCII) \<and>
   IsPrintableASCII ''//meta/'' \<and> length (Split (Clean ''//meta/'') CHR ''/'') < 2 \<and>
   Validate ''//meta/'' = Inl ErrPathParts \<and>
   validators ''meta'' = Some validateMeta \<and> validateMeta [''a''] \<noteq> Inl ErrPathParts"
proof -
  have h1: "\<not> IsPrintableASCII (''meta/a'' @ [CHR 0x09])"
    by (simp add: IsPrintableASCII_def isPrintableASCIIChar_def)
  have h2: "IsPrintableASCII ''//meta/''"
    by (simp add: IsPrintableASCII_def isPrintableASCIIChar_def)
  have h3: "length (Split (Clean ''//meta/'') CHR ''/'') < 2"
    by (simp add: Clean_def)
  have h4: "validators ''meta'' = Some validateMeta"
    by (rule validators_simps)
  show ?thesis
    using h1 h2 h3 h4
      C4_malformed_path_rejected [of "[]"]
      C4_malformed_path_rejected [of "''meta/a'' @ [CHR 0x09]"]
      C4_malformed_path_rejected [of "''//meta/''" "''meta''" validateMeta "[''a'']"]
    by simp
qed

subsection \<open>No out-of-range access\<close>

text \<open>
  Claim C8. \<open>Validate\<close> and the six ring validators are total functions (each is a
  non-recursive definition over total functions), and none of them ever indexes or slices
  the segment list out of range: every \<open>parts[i]\<close> of the source is reached only after
  the length check that makes it safe, so the panic value is never the result.
\<close>

theorem C8_no_out_of_range_access:
  "Validate path \<noteq> Inl (PanicOutOfRange i n) \<and>
   validateMeta parts \<noteq> Inl (PanicOutOfRange i n) \<and>
   validateInfra parts \<noteq> Inl (PanicOutOfRange i n) \<and>
   validatePlatform parts \<noteq> Inl (PanicOutOfRange i n) \<and>
   validateProduct parts \<noteq> Inl (PanicOutOfRange i n) \<and>
   validateApplication parts \<noteq> Inl (PanicOutOfRange i n) \<and>
   validateArtifact parts \<noteq> Inl (PanicOutOfRange i n)"
  by (simp add: Validate_no_panic validateMeta_no_panic validateInfra_no_panic
      validatePlatform_no_panic validateProduct_no_panic validateApplication_no_panic
      validateArtifact_no_panic)

subsection \<open>What each ring validator accepts\<close>

lemma validation_Validate_None_iff:
  "validation_Validate s = None \<longleftrightarrow> s \<noteq> [] \<and> IsPrintableASCII s"
  by (simp add: validation_Validate_def)

lemma distinct_providers: "distinct (map fst cloudProviderRegionsTable)"
  by (simp add: cloudProviderRegionsTable_def)

lemma regionFound_iff:
  "regionFound r \<longleftrightarrow>
     (\<exists>provider regions. cloudProviderRegions provider = Some regions \<and> Contains regions r)"
  unfolding regionFound_def cloudProviderRegions_def list_ex_iff
  using map_of_eq_Some_iff [OF distinct_providers] by fastforce

lemma validateInfra_ok_iff:
  "validateInfra parts = Inr () \<longleftrightarrow>
     4 \<le> length parts \<and> validation_Validate (parts ! 1) = None \<and>
     (\<exists>regions. cloudProviderRegions (parts ! 0) = Some regions \<and> Contains regions (parts ! 2))"
  by (auto simp: validateInfra_def index_def bindE_def split: option.splits)

lemma validatePlatform_ok_iff:
  "validatePlatform parts = Inr () \<longleftrightarrow>
     5 \<le> length parts \<and> Contains platformQualityLevels (parts ! 0) \<and>
     validation_Validate (parts ! 1) = None \<and> regionFound (parts ! 2) \<and>
     validation_Validate (parts ! 3) = None"
  by (auto simp: validatePlatform_def index_def bindE_def split: option.splits)

lemma validateProduct_ok_iff:
  "validateProduct parts = Inr () \<longleftrightarrow>
     3 \<le> length parts \<and> validation_Validate (parts ! 0) = None \<and>
     validateSemVer (parts ! 1) = Inr ()"
  by (auto simp: validateProduct_def index_def bindE_def split: option.splits sum.splits)

lemma validateSemVer_ok_iff:
  "validateSemVer version = Inr () \<longleftrightarrow>
     (\<exists>v. Make (TrimPrefix (TrimSpace (ToLower version)) ''v'') = Inr v)"
  by (auto simp: validateSemVer_def split: sum.splits)

lemma Validate_ok_iff:
  assumes "Split (Clean path) CHR ''/'' = ring # parts" and "validators ring = Some v"
    and "v [] \<noteq> Inr ()"
  shows "Validate path = Inr () \<longleftrightarrow> validation_Validate path = None \<and> v parts = Inr ()"
proof (cases "validation_Validate path")
  case (Some err)
  then show ?thesis by (simp add: Validate_def)
next
  case None
  show ?thesis
  proof (cases "parts = []")
    case True
    with None assms show ?thesis by (simp add: Validate_def)
  next
    case False
    from Validate_ring [OF None assms(1) False] assms(2) None show ?thesis by simp
  qed
qed

lemma C1: 
  "(Split (Clean path) CHR ''/'' = ''infra'' # parts \<longrightarrow>
      (Validate path = Inr () \<longleftrightarrow>
         path \<noteq> [] \<and> IsPrintableASCII path \<and> 4 \<le> length parts \<and>
         parts ! 1 \<noteq> [] \<and> IsPrintableASCII (parts ! 1) \<and>
         (\<exists>regions. cloudProviderRegions (parts ! 0) = Some regions \<and>
                     Contains regions (parts ! 2)))) \<and>
   (Split (Clean path) CHR ''/'' = ''platform'' # parts \<longrightarrow>
      (Validate path = Inr () \<longleftrightarrow>
         path \<noteq> [] \<and> IsPrintableASCII path \<and> 5 \<le> length parts \<and>
         Contains platformQualityLevels (parts ! 0) \<and>
         parts ! 1 \<noteq> [] \<and> IsPrintableASCII (parts ! 1) \<and>
         (\<exists>provider regions. cloudProviderRegions provider = Some regions \<and>
                              Contains regions (parts ! 2)) \<and>
         parts ! 3 \<noteq> [] \<and> IsPrintableASCII (parts ! 3)))"
proof (intro conjI impI)
  assume h: "Split (Clean path) CHR ''/'' = ''infra'' # parts"
  have "validateInfra [] \<noteq> Inr ()" by (simp add: validateInfra_def)
  from Validate_ok_iff [OF h validators_simps(2) this]
  show "Validate path = Inr () \<longleftrightarrow>
         path \<noteq> [] \<and> IsPrintableASCII path \<and> 4 \<le> length parts \<and>
         parts ! 1 \<noteq> [] \<and> IsPrintableASCII (parts ! 1) \<and>
         (\<exists>regions. cloudProviderRegions (parts ! 0) = Some regions \<and>
                     Contains regions (parts ! 2))"
    by (simp add: validateInfra_ok_iff validation_Validate_None_iff)
next
  assume h: "Split (Clean path) CHR ''/'' = ''platform'' # parts"
  have "validatePlatform [] \<noteq> Inr ()" by (simp add: validatePlatform_def)
  from Validate_ok_iff [OF h validators_simps(3) this]
  show "Validate path = Inr () \<longleftrightarrow>
         path \<noteq> [] \<and> IsPrintableASCII path \<and> 5 \<le> length parts \<and>
         Contains platformQualityLevels (parts ! 0) \<and>
         parts ! 1 \<noteq> [] \<and> IsPrintableASCII (parts ! 1) \<and>
         (\<exists>provider regions. cloudProviderRegions provider = Some regions \<and>
                              Contains regions (parts ! 2)) \<and>
         parts ! 3 \<noteq> [] \<and> IsPrintableASCII (parts ! 3)"
    by (simp add: validatePlatform_ok_iff validation_Validate_None_iff regionFound_iff)
qed


lemma validateApplication_ok_iff:
  "validateApplication parts = Inr () \<longleftrightarrow>
     6 \<le> length parts \<and> Contains platformQualityLevels (parts ! 0) \<and>
     validation_Validate (parts ! 1) = None \<and> validation_Validate (parts ! 2) = None \<and>
     validateSemVer (parts ! 3) = Inr () \<and> validation_Validate (parts ! 4) = None"
  by (auto simp: validateApplication_def index_def bindE_def split: option.splits sum.splits)

lemma validateApplication_order:
  "6 \<le> length parts \<Longrightarrow>
   validateApplication parts =
     (if \<not> Contains platformQualityLevels (parts ! 0) then Inl (ErrAppQuality (parts ! 0))
      else case validation_Validate (parts ! 1) of
        Some err \<Rightarrow> Inl (ErrAppPlatformName (parts ! 1) err)
      | None \<Rightarrow>
     (case validation_Validate (parts ! 2) of
        Some err \<Rightarrow> Inl (ErrAppProductName (parts ! 2) err)
      | None \<Rightarrow>
     (case validateSemVer (parts ! 3) of
        Inl err \<Rightarrow> Inl (ErrAppVersion (parts ! 2) (parts ! 3) err)
      | Inr u \<Rightarrow>
     (case validation_Validate (parts ! 4) of
        Some err \<Rightarrow> Inl (ErrAppComponent (parts ! 4) (parts ! 3) (parts ! 2) err)
      | None \<Rightarrow> Inr ()))))"
  by (auto simp: validateApplication_def index_def bindE_def split: option.splits sum.splits)

subsection \<open>Infrastructure and platform: region membership\<close>

text \<open>
  Claim C1. For a path whose ring selector is \<open>infra\<close>, \<open>Validate\<close> accepts exactly when
  the path is well formed, has four segments or more after the selector, the account
  segment passes the field check, and the region segment is in the region list of the
  provider named by the provider segment. For a path whose ring selector is \<open>platform\<close>,
  the region segment only has to be in the region list of some provider. The first
  platform path of the spec is accepted and the second one is refused for its region; a
  region of \<open>gcp\<close> is refused under the provider \<open>aws\<close> and accepted in a platform path.
\<close>

theorem C1_region_membership:
  "(Split (Clean path) CHR ''/'' = ''infra'' # parts \<longrightarrow>
      (Validate path = Inr () \<longleftrightarrow>
         path \<noteq> [] \<and> IsPrintableASCII path \<and> 4 \<le> length parts \<and>
         parts ! 1 \<noteq> [] \<and> IsPrintableASCII (parts ! 1) \<and>
         (\<exists>regions. cloudProviderRegions (parts ! 0) = Some regions \<and>
                     Contains regions (parts ! 2)))) \<and>
   (Split (Clean path) CHR ''/'' = ''platform'' # parts \<longrightarrow>
      (Validate path = Inr () \<longleftrightarrow>
         path \<noteq> [] \<and> IsPrintableASCII path \<and> 5 \<le> length parts \<and>
         Contains platformQualityLevels (parts ! 0) \<and>
         parts ! 1 \<noteq> [] \<and> IsPrintableASCII (parts ! 1) \<and>
         (\<exists>provider regions. cloudProviderRegions provider = Some regions \<and>
                              Contains regions (parts ! 2)) \<and>
         parts ! 3 \<noteq> [] \<and> IsPrintableASCII (parts ! 3))) \<and>
   Validate ''platform/production/checkout/us-east-1/api/token'' = Inr () \<and>
   Validate ''platform/production/checkout/nowhere/api/token'' =
     Inl (ErrPlatformRegion ''nowhere'') \<and>
   Validate ''infra/aws/acme-prod/us-central1/billing/db-password'' =
     Inl (ErrInfraRegion ''us-central1'' ''acme-prod'' ''aws'') \<and>
   Validate ''platform/production/checkout/us-central1/api/token'' = Inr ()"
proof (intro conjI impI)
  assume h: "Split (Clean path) CHR ''/'' = ''infra'' # parts"
  have "validateInfra [] \<noteq> Inr ()" by (simp add: validateInfra_def)
  from Validate_ok_iff [OF h validators_simps(2) this]
  show "Validate path = Inr () \<longleftrightarrow>
         path \<noteq> [] \<and> IsPrintableASCII path \<and> 4 \<le> length parts \<and>
         parts ! 1 \<noteq> [] \<and> IsPrintableASCII (parts ! 1) \<and>
         (\<exists>regions. cloudProviderRegions (parts ! 0) = Some regions \<and>
                     Contains regions (parts ! 2))"
    by (simp add: validateInfra_ok_iff validation_Validate_None_iff)
next
  assume h: "Split (Clean path) CHR ''/'' = ''platform'' # parts"
  have "validatePlatform [] \<noteq> Inr ()" by (simp add: validatePlatform_def)
  from Validate_ok_iff [OF h validators_simps(3) this]
  show "Validate path = Inr () \<longleftrightarrow>
         path \<noteq> [] \<and> IsPrintableASCII path \<and> 5 \<le> length parts \<and>
         Contains platformQualityLevels (parts ! 0) \<and>
         parts ! 1 \<noteq> [] \<and> IsPrintableASCII (parts ! 1) \<and>
         (\<exists>provider regions. cloudProviderRegions provider = Some regions \<and>
                              Contains regions (parts ! 2)) \<and>
         parts ! 3 \<noteq> [] \<and> IsPrintableASCII (parts ! 3)"
    by (simp add: validatePlatform_ok_iff validation_Validate_None_iff regionFound_iff)
next
  show "Validate ''platform/production/checkout/us-east-1/api/token'' = Inr ()"
    by code_simp
next
  show "Validate ''platform/production/checkout/nowhere/api/token'' =
     Inl (ErrPlatformRegion ''nowhere'')"
    by code_simp
next
  show "Validate ''infra/aws/acme-prod/us-central1/billing/db-password'' =
     Inl (ErrInfraRegion ''us-central1'' ''acme-prod'' ''aws'')"
    by code_simp
next
  show "Validate ''platform/production/checkout/us-central1/api/token'' = Inr ()"
    by code_simp
qed

theorem C1_region_membership_witness:
  "Split (Clean ''infra/aws/acme-prod/us-east-1/billing/db-password'') CHR ''/'' =
     ''infra'' # [''aws'', ''acme-prod'', ''us-east-1'', ''billing'', ''db-password''] \<and>
   Validate ''infra/aws/acme-prod/us-east-1/billing/db-password'' = Inr () \<and>
   (\<exists>regions. cloudProviderRegions ''aws'' = Some regions \<and> Contains regions ''us-east-1'') \<and>
   Split (Clean ''platform/production/checkout/us-central1/api/token'') CHR ''/'' =
     ''platform'' # [''production'', ''checkout'', ''us-central1'', ''api'', ''token''] \<and>
   Validate ''platform/production/checkout/us-central1/api/token'' = Inr () \<and>
   (\<exists>provider regions. cloudProviderRegions provider = Some regions \<and>
                        Contains regions ''us-central1'')"
proof -
  have s1: "Split (Clean ''infra/aws/acme-prod/us-east-1/billing/db-password'') CHR ''/'' =
     ''infra'' # [''aws'', ''acme-prod'', ''us-east-1'', ''billing'', ''db-password'']"
    by (simp add: Clean_def)
  have v1: "Validate ''infra/aws/acme-prod/us-east-1/billing/db-password'' = Inr ()"
    by code_simp
  have s2: "Split (Clean ''platform/production/checkout/us-central1/api/token'') CHR ''/'' =
     ''platform'' # [''production'', ''checkout'', ''us-central1'', ''api'', ''token'']"
    by (simp add: Clean_def)
  have v2: "Validate ''platform/production/checkout/us-central1/api/token'' = Inr ()"
    by code_simp
  from v1
    C1_region_membership [of "''infra/aws/acme-prod/us-east-1/billing/db-password''"
      "[''aws'', ''acme-prod'', ''us-east-1'', ''billing'', ''db-password'']",
      THEN conjunct1, rule_format, OF s1]
  have r1: "\<exists>regions. cloudProviderRegions ''aws'' = Some regions \<and>
                      Contains regions ''us-east-1''"
    by simp
  from v2
    C1_region_membership [of "''platform/production/checkout/us-central1/api/token''"
      "[''production'', ''checkout'', ''us-central1'', ''api'', ''token'']",
      THEN conjunct2, THEN conjunct1, rule_format, OF s2]
  have r2: "\<exists>provider regions. cloudProviderRegions provider = Some regions \<and>
                               Contains regions ''us-central1''"
    by simp
  from s1 v1 r1 s2 v2 r2 show ?thesis by blast
qed

subsection \<open>Product\<close>

text \<open>
  Claim C6. For a path whose ring selector is \<open>product\<close>, \<open>Validate\<close> accepts exactly when
  the path is well formed, has three segments or more after the selector, the product name
  is not empty (and printable), and the version segment, lower-cased, trimmed and with one
  leading \<open>v\<close> removed, is parsed by \<open>semver.Make\<close>. The two paths of the spec: the first
  is accepted, the second is refused with the error of the parser.
\<close>

theorem C6_product_ring:
  "(Split (Clean path) CHR ''/'' = ''product'' # parts \<longrightarrow>
      (Validate path = Inr () \<longleftrightarrow>
         path \<noteq> [] \<and> IsPrintableASCII path \<and> 3 \<le> length parts \<and>
         parts ! 0 \<noteq> [] \<and> IsPrintableASCII (parts ! 0) \<and>
         (\<exists>v. Make (TrimPrefix (TrimSpace (ToLower (parts ! 1))) ''v'') = Inr v))) \<and>
   Validate ''product/payments/v2.3.1/key'' = Inr () \<and>
   Validate ''product/payments/not-a-version/key'' =
     Inl (ErrProductVersion ''payments'' ''not-a-version'' ErrNoMajorMinorPatch)"
proof (intro conjI impI)
  assume h: "Split (Clean path) CHR ''/'' = ''product'' # parts"
  have "validateProduct [] \<noteq> Inr ()" by (simp add: validateProduct_def)
  from Validate_ok_iff [OF h validators_simps(4) this]
  show "Validate path = Inr () \<longleftrightarrow>
         path \<noteq> [] \<and> IsPrintableASCII path \<and> 3 \<le> length parts \<and>
         parts ! 0 \<noteq> [] \<and> IsPrintableASCII (parts ! 0) \<and>
         (\<exists>v. Make (TrimPrefix (TrimSpace (ToLower (parts ! 1))) ''v'') = Inr v)"
    by (simp add: validateProduct_ok_iff validation_Validate_None_iff validateSemVer_ok_iff)
next
  show "Validate ''product/payments/v2.3.1/key'' = Inr ()" by code_simp
next
  show "Validate ''product/payments/not-a-version/key'' =
     Inl (ErrProductVersion ''payments'' ''not-a-version'' ErrNoMajorMinorPatch)" by code_simp
qed

theorem C6_product_ring_witness:
  "Split (Clean ''product/payments/v2.3.1/key'') CHR ''/'' = ''product'' # [''payments'', ''v2.3.1'', ''key''] \<and>
   Validate ''product/payments/v2.3.1/key'' = Inr () \<and>
   (\<exists>v. Make (TrimPrefix (TrimSpace (ToLower ''v2.3.1'')) ''v'') = Inr v)"
proof -
  have s: "Split (Clean ''product/payments/v2.3.1/key'') CHR ''/'' = ''product'' # [''payments'', ''v2.3.1'', ''key'']"
    by (simp add: Clean_def)
  have v: "Validate ''product/payments/v2.3.1/key'' = Inr ()" by code_simp
  from v C6_product_ring [of "''product/payments/v2.3.1/key''" "[''payments'', ''v2.3.1'', ''key'']",
      THEN conjunct1, rule_format, OF s]
  have "\<exists>v. Make (TrimPrefix (TrimSpace (ToLower ''v2.3.1'')) ''v'') = Inr v"
    by simp
  with s v
  show ?thesis by simp
qed

subsection \<open>Application\<close>

text \<open>
  Claim C7. For a path whose ring selector is \<open>app\<close>, \<open>Validate\<close> accepts exactly when the
  path is well formed, has six segments or more after the selector, and the stage is one of
  \<open>production\<close>, \<open>staging\<close>, \<open>qa\<close>, \<open>dev\<close>, the platform name and the product name are
  not empty, the product version is a semantic version and the component is not empty. The
  checks run in this order: the error returned is the one of the first check that fails.
  The application path of the spec is accepted.
\<close>

theorem C7_application_ring:
  "(Split (Clean path) CHR ''/'' = ''app'' # parts \<longrightarrow>
      (Validate path = Inr () \<longleftrightarrow>
         path \<noteq> [] \<and> IsPrintableASCII path \<and> 6 \<le> length parts \<and>
         Contains platformQualityLevels (parts ! 0) \<and>
         parts ! 1 \<noteq> [] \<and> IsPrintableASCII (parts ! 1) \<and>
         parts ! 2 \<noteq> [] \<and> IsPrintableASCII (parts ! 2) \<and>
         (\<exists>v. Make (TrimPrefix (TrimSpace (ToLower (parts ! 3))) ''v'') = Inr v) \<and>
         parts ! 4 \<noteq> [] \<and> IsPrintableASCII (parts ! 4))) \<and>
   (Split (Clean path) CHR ''/'' = ''app'' # parts \<and> path \<noteq> [] \<and> IsPrintableASCII path \<and>
    6 \<le> length parts \<longrightarrow>
      Validate path =
        (if \<not> Contains platformQualityLevels (parts ! 0) then Inl (ErrAppQuality (parts ! 0))
         else case validation_Validate (parts ! 1) of
           Some err \<Rightarrow> Inl (ErrAppPlatformName (parts ! 1) err)
         | None \<Rightarrow>
        (case validation_Validate (parts ! 2) of
           Some err \<Rightarrow> Inl (ErrAppProductName (parts ! 2) err)
         | None \<Rightarrow>
        (case validateSemVer (parts ! 3) of
           Inl err \<Rightarrow> Inl (ErrAppVersion (parts ! 2) (parts ! 3) err)
         | Inr u \<Rightarrow>
        (case validation_Validate (parts ! 4) of
           Some err \<Rightarrow> Inl (ErrAppComponent (parts ! 4) (parts ! 3) (parts ! 2) err)
         | None \<Rightarrow> Inr ()))))) \<and>
   platformQualityLevels = [''production'', ''staging'', ''qa'', ''dev''] \<and>
   Validate ''app/staging/checkout/payments/v1.0.0/worker/key'' = Inr ()"
proof (intro conjI impI)
  assume h: "Split (Clean path) CHR ''/'' = ''app'' # parts"
  have "validateApplication [] \<noteq> Inr ()" by (simp add: validateApplication_def)
  from Validate_ok_iff [OF h validators_simps(5) this]
  show "Validate path = Inr () \<longleftrightarrow>
         path \<noteq> [] \<and> IsPrintableASCII path \<and> 6 \<le> length parts \<and>
         Contains platformQualityLevels (parts ! 0) \<and>
         parts ! 1 \<noteq> [] \<and> IsPrintableASCII (parts ! 1) \<and>
         parts ! 2 \<noteq> [] \<and> IsPrintableASCII (parts ! 2) \<and>
         (\<exists>v. Make (TrimPrefix (TrimSpace (ToLower (parts ! 3))) ''v'') = Inr v) \<and>
         parts ! 4 \<noteq> [] \<and> IsPrintableASCII (parts ! 4)"
    by (simp add: validateApplication_ok_iff validation_Validate_None_iff validateSemVer_ok_iff)
next
  assume h: "Split (Clean path) CHR ''/'' = ''app'' # parts \<and> path \<noteq> [] \<and>
    IsPrintableASCII path \<and> 6 \<le> length parts"
  then have v: "validation_Validate path = None" and ne: "parts \<noteq> []"
    by (auto simp: validation_Validate_None_iff)
  from h have s: "Split (Clean path) CHR ''/'' = ''app'' # parts" and l: "6 \<le> length parts"
    by simp_all
  show "Validate path =
        (if \<not> Contains platformQualityLevels (parts ! 0) then Inl (ErrAppQuality (parts ! 0))
         else case validation_Validate (parts ! 1) of
           Some err \<Rightarrow> Inl (ErrAppPlatformName (parts ! 1) err)
         | None \<Rightarrow>
        (case validation_Validate (parts ! 2) of
           Some err \<Rightarrow> Inl (ErrAppProductName (parts ! 2) err)
         | None \<Rightarrow>
        (case validateSemVer (parts ! 3) of
           Inl err \<Rightarrow> Inl (ErrAppVersion (parts ! 2) (parts ! 3) err)
         | Inr u \<Rightarrow>
        (case validation_Validate (parts ! 4) of
           Some err \<Rightarrow> Inl (ErrAppComponent (parts ! 4) (parts ! 3) (parts ! 2) err)
         | None \<Rightarrow> Inr ()))))"
    using Validate_ring [OF v s ne] validateApplication_order [OF l]
    by (simp add: validators_simps)
next
  show "platformQualityLevels = [''production'', ''staging'', ''qa'', ''dev'']"
    by (rule platformQualityLevels_def)
next
  show "Validate ''app/staging/checkout/payments/v1.0.0/worker/key'' = Inr ()" by code_simp
qed

theorem C7_application_ring_witness:
  "Split (Clean ''app/staging/checkout/payments/v1.0.0/worker/key'') CHR ''/'' =
     ''app'' # [''staging'', ''checkout'', ''payments'', ''v1.0.0'', ''worker'', ''key''] \<and>
   Validate ''app/staging/checkout/payments/v1.0.0/worker/key'' = Inr () \<and>
   Contains platformQualityLevels ''staging'' \<and>
   (\<exists>v. Make (TrimPrefix (TrimSpace (ToLower ''v1.0.0'')) ''v'') = Inr v) \<and>
   Split (Clean ''app/prod/checkout/payments/one.two/worker/key'') CHR ''/'' =
     ''app'' # [''prod'', ''checkout'', ''payments'', ''one.two'', ''worker'', ''key''] \<and>
   IsPrintableASCII ''app/prod/checkout/payments/one.two/worker/key'' \<and>
   Validate ''app/prod/checkout/payments/one.two/worker/key'' = Inl (ErrAppQuality ''prod'')"
proof -
  have s1: "Split (Clean ''app/staging/checkout/payments/v1.0.0/worker/key'') CHR ''/'' =
     ''app'' # [''staging'', ''checkout'', ''payments'', ''v1.0.0'', ''worker'', ''key'']"
    by (simp add: Clean_def)
  have v1: "Validate ''app/staging/checkout/payments/v1.0.0/worker/key'' = Inr ()"
    by code_simp
  have s2: "Split (Clean ''app/prod/checkout/payments/one.two/worker/key'') CHR ''/'' =
     ''app'' # [''prod'', ''checkout'', ''payments'', ''one.two'', ''worker'', ''key'']"
    by (simp add: Clean_def)
  have p2: "IsPrintableASCII ''app/prod/checkout/payments/one.two/worker/key''"
    by (simp add: IsPrintableASCII_def isPrintableASCIIChar_def)
  have q2: "\<not> Contains platformQualityLevels ''prod''"
    by (simp add: Contains_def platformQualityLevels_def)
  from v1
    C7_application_ring [of "''app/staging/checkout/payments/v1.0.0/worker/key''"
      "[''staging'', ''checkout'', ''payments'', ''v1.0.0'', ''worker'', ''key'']",
      THEN conjunct1, rule_format, OF s1]
  have r1: "Contains platformQualityLevels ''staging'' \<and>
      (\<exists>v. Make (TrimPrefix (TrimSpace (ToLower ''v1.0.0'')) ''v'') = Inr v)"
    by simp
  from s2 p2 q2
    C7_application_ring [of "''app/prod/checkout/payments/one.two/worker/key''"
      "[''prod'', ''checkout'', ''payments'', ''one.two'', ''worker'', ''key'']",
      THEN conjunct2, THEN conjunct1]
  have r2: "Validate ''app/prod/checkout/payments/one.two/worker/key'' =
      Inl (ErrAppQuality ''prod'')"
    by simp
  from s1 v1 r1 s2 p2 r2 show ?thesis by blast
qed

subsection \<open>Normalization\<close>

lemma Split_no_sep: "x \<in> set (Split s sep) \<Longrightarrow> sep \<notin> set x"
proof (induction s arbitrary: x)
  case Nil
  then show ?case by simp
next
  case (Cons c cs)
  then show ?case
    by (cases "Split cs sep") (auto split: if_splits)
qed

lemma Split_chars: "(\<Union>x\<in>set (Split s sep). set x) = set s - {sep}"
proof (induction s)
  case Nil
  then show ?case by simp
next
  case (Cons c cs)
  then show ?case
    by (cases "Split cs sep") (auto split: if_splits)
qed

lemma Split_single: "sep \<notin> set x \<Longrightarrow> Split x sep = [x]"
  by (induction x) auto

lemma Split_append_sep: "sep \<notin> set x \<Longrightarrow> Split (x @ sep # r) sep = x # Split r sep"
  by (induction x) auto

lemma Split_Join:
  "xs \<noteq> [] \<Longrightarrow> \<forall>x\<in>set xs. sep \<notin> set x \<Longrightarrow> Split (Join xs [sep]) sep = xs"
proof (induction xs "[sep]" rule: Join.induct)
  case 1
  then show ?case by simp
next
  case (2 x)
  then show ?case by (simp add: Split_single)
next
  case (3 x y ys)
  then show ?case by (simp add: Split_append_sep)
qed

lemma Join_chars_lower: "(\<Union>x\<in>set xs. set x) \<subseteq> set (Join xs sep)"
  by (induction xs sep rule: Join.induct) auto

lemma Join_chars_upper: "set (Join xs sep) \<subseteq> (\<Union>x\<in>set xs. set x) \<union> set sep"
  by (induction xs sep rule: Join.induct) auto

lemma Join_Nil_iff: "Join xs sep = [] \<longleftrightarrow> xs = [] \<or> (xs = [[]]) \<or> (sep = [] \<and> (\<forall>x\<in>set xs. x = []))"
  by (induction xs sep rule: Join.induct) auto

lemma Split_Clean:
  "Split (Clean path) CHR ''/'' =
     (if filter (\<lambda>seg. seg \<noteq> []) (Split path CHR ''/'') = [] then [[]]
      else filter (\<lambda>seg. seg \<noteq> []) (Split path CHR ''/''))"
proof (cases "filter (\<lambda>seg. seg \<noteq> []) (Split path CHR ''/'') = []")
  case True
  then show ?thesis by (simp add: Clean_def)
next
  case False
  have "\<forall>x\<in>set (filter (\<lambda>seg. seg \<noteq> []) (Split path CHR ''/'')). CHR ''/'' \<notin> set x"
    by (auto dest: Split_no_sep)
  from Split_Join [OF False this] False show ?thesis by (simp add: Clean_def)
qed

lemma Clean_idem: "Clean (Clean path) = Clean path"
proof -
  have "filter (\<lambda>seg. seg \<noteq> []) (Split (Clean path) CHR ''/'')
      = filter (\<lambda>seg. seg \<noteq> []) (Split path CHR ''/'')"
    by (simp add: Split_Clean)
  then show ?thesis by (simp add: Clean_def)
qed

lemma Clean_segments_nonempty:
  assumes "Split (Clean path) CHR ''/'' = ring # parts" and "parts \<noteq> []"
  shows "\<forall>seg\<in>set (ring # parts). seg \<noteq> []"
proof -
  from assms have "filter (\<lambda>seg. seg \<noteq> []) (Split path CHR ''/'') = ring # parts"
    by (simp add: Split_Clean split: if_splits)
  then have "set (ring # parts) = {x \<in> set (Split path CHR ''/''). x \<noteq> []}"
    by (metis set_filter)
  then show ?thesis by blast
qed

lemma Clean_chars_lower: "set path - {CHR ''/''} \<subseteq> set (Clean path)"
proof -
  have "(\<Union>x\<in>set (filter (\<lambda>seg. seg \<noteq> []) (Split path CHR ''/'')). set x)
      = (\<Union>x\<in>set (Split path CHR ''/''). set x)"
    by auto
  with Join_chars_lower [of "filter (\<lambda>seg. seg \<noteq> []) (Split path CHR ''/'')" "''/''"]
  show ?thesis by (simp add: Clean_def Split_chars)
qed

lemma Clean_chars_upper: "set (Clean path) \<subseteq> set path \<union> {CHR ''/''}"
proof -
  have "(\<Union>x\<in>set (filter (\<lambda>seg. seg \<noteq> []) (Split path CHR ''/'')). set x)
      = (\<Union>x\<in>set (Split path CHR ''/''). set x)"
    by auto
  with Join_chars_upper [of "filter (\<lambda>seg. seg \<noteq> []) (Split path CHR ''/'')" "''/''"]
  show ?thesis by (auto simp: Clean_def Split_chars)
qed

lemma slash_printable: "isPrintableASCIIChar CHR ''/''"
  by (simp add: isPrintableASCIIChar_def)

lemma IsPrintableASCII_Clean: "IsPrintableASCII (Clean path) \<longleftrightarrow> IsPrintableASCII path"
proof
  assume h: "IsPrintableASCII (Clean path)"
  show "IsPrintableASCII path"
    unfolding IsPrintableASCII_def list_all_iff
  proof
    fix c assume "c \<in> set path"
    show "isPrintableASCIIChar c"
    proof (cases "c = CHR ''/''")
      case True
      then show ?thesis by (simp add: slash_printable)
    next
      case False
      with \<open>c \<in> set path\<close> Clean_chars_lower [of path] have "c \<in> set (Clean path)" by auto
      with h show ?thesis by (simp add: IsPrintableASCII_def list_all_iff)
    qed
  qed
next
  assume h: "IsPrintableASCII path"
  show "IsPrintableASCII (Clean path)"
    unfolding IsPrintableASCII_def list_all_iff
  proof
    fix c assume "c \<in> set (Clean path)"
    with Clean_chars_upper [of path] have "c \<in> set path \<or> c = CHR ''/''" by auto
    with h slash_printable show "isPrintableASCIIChar c"
      by (auto simp: IsPrintableASCII_def list_all_iff)
  qed
qed

lemma Clean_Nil [simp]: "Clean [] = []"
  by (simp add: Clean_def)

lemma Validate_after_check:
  "validation_Validate path = None \<Longrightarrow> validation_Validate path' = None \<Longrightarrow>
   Clean path' = Clean path \<Longrightarrow> Validate path' = Validate path"
  by (simp add: Validate_def)

lemma Validate_Clean_eq:
  assumes "Clean path \<noteq> []"
  shows "Validate (Clean path) = Validate path"
proof (cases "IsPrintableASCII path")
  case True
  from assms have "path \<noteq> []" by auto
  with True assms have "validation_Validate path = None" "validation_Validate (Clean path) = None"
    by (simp_all add: validation_Validate_def IsPrintableASCII_Clean)
  then show ?thesis by (rule Validate_after_check) (rule Clean_idem)
next
  case False
  from assms have "path \<noteq> []" by auto
  with False assms show ?thesis
    by (simp add: Validate_def validation_Validate_def IsPrintableASCII_Clean)
qed

lemma Validate_Clean_empty:
  assumes "Clean path = []"
  shows "Validate (Clean path) = Inl (ErrSecretPath ErrRequired)"
    and "path \<noteq> [] \<Longrightarrow> Validate path = Inl ErrPathParts"
proof -
  show "Validate (Clean path) = Inl (ErrSecretPath ErrRequired)"
    using assms by (simp add: Validate_def validation_Validate_def)
  assume ne: "path \<noteq> []"
  from assms have "IsPrintableASCII (Clean path)" by (simp add: IsPrintableASCII_def)
  then have "IsPrintableASCII path" by (simp add: IsPrintableASCII_Clean)
  with ne assms show "Validate path = Inl ErrPathParts"
    by (simp add: Validate_def validation_Validate_def)
qed

text \<open>
  Claim C2. Normalization is idempotent, and validating the normalized path gives the same
  outcome as validating the raw path: both succeed or both fail, with an error of the same
  kind. The two results are the same value unless the raw path is made of slashes only:
  then the raw path is refused for its segment count and the normalized one, which is
  empty, for being blank, both malformed-path errors.
\<close>

theorem C2_validate_clean_invariant:
  "Clean (Clean path) = Clean path \<and>
   outcome (Validate (Clean path)) = outcome (Validate path) \<and>
   (Validate (Clean path) = Inr () \<longleftrightarrow> Validate path = Inr ()) \<and>
   (Clean path \<noteq> [] \<longrightarrow> Validate (Clean path) = Validate path)"
proof (cases "Clean path = []")
  case False
  then show ?thesis by (simp add: Clean_idem Validate_Clean_eq)
next
  case True
  show ?thesis
  proof (cases "path = []")
    case True
    then show ?thesis by simp
  next
    case False
    from Validate_Clean_empty [OF True] False
    have "Validate (Clean path) = Inl (ErrSecretPath ErrRequired)"
      and "Validate path = Inl ErrPathParts"
      by simp_all
    with True show ?thesis by (simp add: outcome_def)
  qed
qed

theorem C2_validate_clean_invariant_witness:
  "Clean ''//product//payments/v2.3.1/key/'' = ''product/payments/v2.3.1/key'' \<and>
   ''product/payments/v2.3.1/key'' \<noteq> [] \<and>
   Validate ''product/payments/v2.3.1/key'' = Validate ''//product//payments/v2.3.1/key/'' \<and>
   Validate ''//product//payments/v2.3.1/key/'' = Inr ()"
proof -
  have c: "Clean ''//product//payments/v2.3.1/key/'' = ''product/payments/v2.3.1/key''"
    by (simp add: Clean_def)
  have v: "Validate ''product/payments/v2.3.1/key'' = Inr ()"
    by code_simp
  have ne: "Clean ''//product//payments/v2.3.1/key/'' \<noteq> []"
    by (simp add: c)
  from C2_validate_clean_invariant [of "''//product//payments/v2.3.1/key/''"] ne
  have "Validate (Clean ''//product//payments/v2.3.1/key/'') =
        Validate ''//product//payments/v2.3.1/key/''"
    by blast
  then have e: "Validate ''product/payments/v2.3.1/key'' =
        Validate ''//product//payments/v2.3.1/key/''"
    unfolding c .
  have r: "Validate ''//product//payments/v2.3.1/key/'' = Inr ()"
    unfolding e [symmetric] by (rule v)
  show ?thesis
  proof (intro conjI)
    show "Clean ''//product//payments/v2.3.1/key/'' = ''product/payments/v2.3.1/key''"
      by (rule c)
    show "''product/payments/v2.3.1/key'' \<noteq> []"
      by simp
    show "Validate ''product/payments/v2.3.1/key'' =
          Validate ''//product//payments/v2.3.1/key/''"
      by (rule e)
    show "Validate ''//product//payments/v2.3.1/key/'' = Inr ()"
      by (rule r)
  qed
qed

subsection \<open>Artifact\<close>

lemma Clean_segments_printable:
  assumes "IsPrintableASCII path" and "seg \<in> set (Split (Clean path) CHR ''/'')"
  shows "IsPrintableASCII seg"
proof -
  from assms(1) have p: "IsPrintableASCII (Clean path)"
    by (simp add: IsPrintableASCII_Clean)
  from assms(2) have "set seg \<subseteq> (\<Union>x\<in>set (Split (Clean path) CHR ''/''). set x)"
    by blast
  then have "set seg \<subseteq> set (Clean path)"
    by (auto simp: Split_chars)
  with p show ?thesis
    by (auto simp: IsPrintableASCII_def list_all_iff)
qed

lemma validateArtifact_ok_iff:
  "validateArtifact parts = Inr () \<longleftrightarrow>
     2 \<le> length parts \<and> validation_Validate (parts ! 1) = None"
  by (auto simp: validateArtifact_def index_def bindE_def split: option.splits)

lemma Validate_artifact_iff:
  assumes s: "Split (Clean path) CHR ''/'' = ''artifact'' # parts"
  shows "Validate path = Inr () \<longleftrightarrow>
           path \<noteq> [] \<and> IsPrintableASCII path \<and> 2 \<le> length parts"
proof -
  have "validateArtifact [] \<noteq> Inr ()" by (simp add: validateArtifact_def)
  from Validate_ok_iff [OF s validators_simps(6) this]
  have v: "Validate path = Inr () \<longleftrightarrow>
      path \<noteq> [] \<and> IsPrintableASCII path \<and> 2 \<le> length parts \<and>
      parts ! 1 \<noteq> [] \<and> IsPrintableASCII (parts ! 1)"
    by (simp add: validateArtifact_ok_iff validation_Validate_None_iff)
  have "parts ! 1 \<noteq> [] \<and> IsPrintableASCII (parts ! 1)"
    if p: "IsPrintableASCII path" and l: "2 \<le> length parts"
  proof -
    from l have ne: "parts \<noteq> []" by (cases parts) simp_all
    have "parts ! 1 \<in> set parts" by (rule nth_mem) (use l in linarith)
    then have m: "parts ! 1 \<in> set (''artifact'' # parts)" by simp
    from Clean_segments_nonempty [OF s ne] m have "parts ! 1 \<noteq> []" by blast
    moreover from Clean_segments_printable [OF p] m s have "IsPrintableASCII (parts ! 1)"
      by simp
    ultimately show ?thesis by simp
  qed
  with v show ?thesis by blast
qed

text \<open>
  Claim C5. For a path whose ring selector is \<open>artifact\<close>, \<open>Validate\<close> accepts exactly when
  the path is well formed and has two segments or more after the selector; with fewer it
  fails. In every accepted path the artifact type, the first segment after the selector,
  is not empty and is printable ASCII. (The field check of the artifact validator itself
  reads \<open>parts[1]\<close>; the type segment is not empty because normalization leaves no empty
  segment, and printable because the whole path is.)
\<close>

theorem C5_artifact_ring:
  "(Split (Clean path) CHR ''/'' = ''artifact'' # parts \<longrightarrow>
      (Validate path = Inr () \<longleftrightarrow>
         path \<noteq> [] \<and> IsPrintableASCII path \<and> 2 \<le> length parts)) \<and>
   (Split (Clean path) CHR ''/'' = ''artifact'' # parts \<and> Validate path = Inr () \<longrightarrow>
      2 \<le> length parts \<and> parts ! 0 \<noteq> [] \<and> IsPrintableASCII (parts ! 0)) \<and>
   (Split (Clean path) CHR ''/'' = ''artifact'' # parts \<and> length parts < 2 \<longrightarrow>
      Validate path \<noteq> Inr ()) \<and>
   Validate ''artifact/docker/sha256:0f1e/attestation'' = Inr () \<and>
   Validate ''artifact/docker'' = Inl ErrArtifactPartCount \<and>
   Validate ''artifact//docker'' = Inl ErrArtifactPartCount"
proof -
  have a: "Split (Clean path) CHR ''/'' = ''artifact'' # parts \<longrightarrow>
      (Validate path = Inr () \<longleftrightarrow>
         path \<noteq> [] \<and> IsPrintableASCII path \<and> 2 \<le> length parts)"
    by (auto dest: Validate_artifact_iff)
  have b: "Split (Clean path) CHR ''/'' = ''artifact'' # parts \<and> Validate path = Inr () \<longrightarrow>
      2 \<le> length parts \<and> parts ! 0 \<noteq> [] \<and> IsPrintableASCII (parts ! 0)"
  proof
    assume h: "Split (Clean path) CHR ''/'' = ''artifact'' # parts \<and> Validate path = Inr ()"
    then have s: "Split (Clean path) CHR ''/'' = ''artifact'' # parts" by simp
    from h Validate_artifact_iff [OF s]
    have p: "IsPrintableASCII path" and l: "2 \<le> length parts" by simp_all
    from l have ne: "parts \<noteq> []" by (cases parts) simp_all
    have "parts ! 0 \<in> set parts" by (rule nth_mem) (use l in linarith)
    then have m: "parts ! 0 \<in> set (''artifact'' # parts)" by simp
    from Clean_segments_nonempty [OF s ne] m have x: "parts ! 0 \<noteq> []" by blast
    from Clean_segments_printable [OF p] m s have y: "IsPrintableASCII (parts ! 0)"
      by simp
    from l x y show "2 \<le> length parts \<and> parts ! 0 \<noteq> [] \<and> IsPrintableASCII (parts ! 0)"
      by simp
  qed
  have c: "Split (Clean path) CHR ''/'' = ''artifact'' # parts \<and> length parts < 2 \<longrightarrow>
      Validate path \<noteq> Inr ()"
    by (auto dest: Validate_artifact_iff)
  have e1: "Validate ''artifact/docker/sha256:0f1e/attestation'' = Inr ()" by code_simp
  have e2: "Validate ''artifact/docker'' = Inl ErrArtifactPartCount" by code_simp
  have e3: "Validate ''artifact//docker'' = Inl ErrArtifactPartCount" by code_simp
  from a b c e1 e2 e3 show ?thesis by (intro conjI)
qed

theorem C5_artifact_ring_witness:
  "Split (Clean ''artifact/docker/sha256:0f1e/attestation'') CHR ''/'' =
     ''artifact'' # [''docker'', ''sha256:0f1e'', ''attestation''] \<and>
   Validate ''artifact/docker/sha256:0f1e/attestation'' = Inr () \<and>
   ''docker'' \<noteq> [] \<and> IsPrintableASCII ''docker'' \<and>
   Split (Clean ''artifact//docker'') CHR ''/'' = ''artifact'' # [''docker''] \<and>
   Validate ''artifact//docker'' \<noteq> Inr ()"
proof -
  have s1: "Split (Clean ''artifact/docker/sha256:0f1e/attestation'') CHR ''/'' =
     ''artifact'' # [''docker'', ''sha256:0f1e'', ''attestation'']"
    by (simp add: Clean_def)
  have v1: "Validate ''artifact/docker/sha256:0f1e/attestation'' = Inr ()"
    by code_simp
  have s2: "Split (Clean ''artifact//docker'') CHR ''/'' = ''artifact'' # [''docker'']"
    by (simp add: Clean_def)
  from s1 v1
    C5_artifact_ring [of "''artifact/docker/sha256:0f1e/attestation''"
      "[''docker'', ''sha256:0f1e'', ''attestation'']", THEN conjunct2, THEN conjunct1]
  have r1: "''docker'' \<noteq> [] \<and> IsPrintableASCII ''docker''"
    by simp
  from s2
    C5_artifact_ring [of "''artifact//docker''" "[''docker'']",
      THEN conjunct2, THEN conjunct2, THEN conjunct1]
  have r2: "Validate ''artifact//docker'' \<noteq> Inr ()"
    by simp
  from s1 v1 r1 s2 r2 show ?thesis by blast
qed

subsection \<open>Semantic versions: lower-casing, trimming and the prefix\<close>

lemma of_char_toLowerChar:
  "(of_char (toLowerChar c) :: nat) =
     (if 65 \<le> (of_char c :: nat) \<and> (of_char c :: nat) \<le> 90 then of_char c + 32 else of_char c)"
  by (simp add: toLowerChar_def)

lemma toLowerChar_eq_iff:
  assumes "(of_char d :: nat) < 65"
  shows "toLowerChar c = d \<longleftrightarrow> c = d"
proof -
  have "toLowerChar c = d \<longleftrightarrow> (of_char (toLowerChar c) :: nat) = of_char d"
    by simp
  also have "\<dots> \<longleftrightarrow> (of_char c :: nat) = of_char d"
    using assms by (auto simp: of_char_toLowerChar)
  finally show ?thesis by simp
qed

lemma toLowerChar_dot [simp]: "toLowerChar c = CHR ''.'' \<longleftrightarrow> c = CHR ''.''"
  by (rule toLowerChar_eq_iff) simp

lemma toLowerChar_plus [simp]: "toLowerChar c = CHR ''+'' \<longleftrightarrow> c = CHR ''+''"
  by (rule toLowerChar_eq_iff) simp

lemma toLowerChar_minus [simp]: "toLowerChar c = CHR ''-'' \<longleftrightarrow> c = CHR ''-''"
  by (rule toLowerChar_eq_iff) simp

lemma toLowerChar_zero [simp]: "toLowerChar c = CHR ''0'' \<longleftrightarrow> c = CHR ''0''"
  by (rule toLowerChar_eq_iff) simp

lemma numbers_codes: "c \<in> set numbers \<Longrightarrow> 48 \<le> (of_char c :: nat) \<and> (of_char c :: nat) \<le> 57"
  by (auto simp: numbers_def)

lemma alphanum_codes:
  "c \<in> set alphanum \<Longrightarrow> 45 \<le> (of_char c :: nat) \<and> (of_char c :: nat) \<le> 122"
  by (auto simp: alphanum_def alphas_def numbers_def)

lemma toLowerChar_numbers:
  assumes "c \<in> set numbers"
  shows "toLowerChar c = c"
proof -
  from assms have "48 \<le> (of_char c :: nat) \<and> (of_char c :: nat) \<le> 57"
    by (rule numbers_codes)
  then show ?thesis by (simp add: toLowerChar_def)
qed

lemma toLowerChar_numbers_iff: "toLowerChar c \<in> set numbers \<longleftrightarrow> c \<in> set numbers"
proof
  assume "toLowerChar c \<in> set numbers"
  then have h: "48 \<le> (of_char (toLowerChar c) :: nat) \<and> (of_char (toLowerChar c) :: nat) \<le> 57"
    by (rule numbers_codes)
  then have "\<not> (65 \<le> (of_char c :: nat) \<and> (of_char c :: nat) \<le> 90)"
    by (auto simp: of_char_toLowerChar split: if_splits)
  then have "toLowerChar c = c" by (auto simp: toLowerChar_def)
  with \<open>toLowerChar c \<in> set numbers\<close> show "c \<in> set numbers" by simp
next
  assume "c \<in> set numbers"
  then show "toLowerChar c \<in> set numbers" by (simp add: toLowerChar_numbers)
qed

lemma toLowerChar_alphanum: "c \<in> set alphanum \<Longrightarrow> toLowerChar c \<in> set alphanum"
proof -
  have "list_all (\<lambda>c. toLowerChar c \<in> set alphanum) alphanum"
    by code_simp
  then show "c \<in> set alphanum \<Longrightarrow> toLowerChar c \<in> set alphanum"
    by (simp add: list_all_iff)
qed

lemma isSpace_toLowerChar [simp]: "isSpace (toLowerChar c) \<longleftrightarrow> isSpace c"
  by (auto simp: isSpace_def of_char_toLowerChar)

lemma numbers_not_space:
  assumes "c \<in> set numbers"
  shows "\<not> isSpace c"
proof -
  from assms have "48 \<le> (of_char c :: nat) \<and> (of_char c :: nat) \<le> 57"
    by (rule numbers_codes)
  then show ?thesis by (auto simp: isSpace_def)
qed

lemma alphanum_not_space:
  assumes "c \<in> set alphanum"
  shows "\<not> isSpace c"
proof -
  from assms have "45 \<le> (of_char c :: nat) \<and> (of_char c :: nat) \<le> 122"
    by (rule alphanum_codes)
  then show ?thesis by (auto simp: isSpace_def)
qed

lemma SplitN_not_Nil: "0 < n \<Longrightarrow> SplitN s sep n \<noteq> []"
  by (induction s sep n rule: SplitN.induct) (auto split: list.splits)

lemma SplitN_ToLower:
  "SplitN (map toLowerChar s) CHR ''.'' n = map (map toLowerChar) (SplitN s CHR ''.'' n)"
proof (induction s "CHR ''.''" n rule: SplitN.induct)
  case (4 c cs n)
  then show ?case
    by (cases "SplitN cs CHR ''.'' (Suc (Suc n))") (auto simp: SplitN_not_Nil)
qed simp_all

lemma Split_ToLower:
  assumes "\<And>c. toLowerChar c = sep \<longleftrightarrow> c = sep"
  shows "Split (map toLowerChar s) sep = map (map toLowerChar) (Split s sep)"
proof (induction s)
  case Nil
  then show ?case by simp
next
  case (Cons c cs)
  then show ?case
    by (cases "Split cs sep") (auto simp: assms)
qed

lemma containsOnly_numbers_ToLower:
  "containsOnly (map toLowerChar x) numbers \<longleftrightarrow> containsOnly x numbers"
  by (simp add: containsOnly_def list_all_iff toLowerChar_numbers_iff)

lemma ToLower_numbers_id: "containsOnly x numbers \<Longrightarrow> map toLowerChar x = x"
  by (simp add: containsOnly_def list_all_iff toLowerChar_numbers map_idI)

lemma containsOnly_alphanum_ToLower:
  "containsOnly x alphanum \<Longrightarrow> containsOnly (map toLowerChar x) alphanum"
  by (simp add: containsOnly_def list_all_iff toLowerChar_alphanum)

lemma NewPRVersion_ToLower:
  assumes "NewPRVersion p = Inr v"
  shows "\<exists>v'. NewPRVersion (map toLowerChar p) = Inr v'"
proof (cases "containsOnly p numbers")
  case True
  then have "map toLowerChar p = p" by (rule ToLower_numbers_id)
  with assms show ?thesis by simp
next
  case False
  with assms have "p \<noteq> []" and "containsOnly p alphanum"
    by (auto simp: NewPRVersion_def split: if_splits)
  with False show ?thesis
    by (simp add: NewPRVersion_def containsOnly_numbers_ToLower containsOnly_alphanum_ToLower)
qed

lemma parsePrerelease_ToLower:
  "parsePrerelease ps = Inr vs \<Longrightarrow>
   \<exists>vs'. parsePrerelease (map (map toLowerChar) ps) = Inr vs'"
proof (induction ps arbitrary: vs)
  case Nil
  then show ?case by simp
next
  case (Cons p ps)
  from Cons.prems obtain v vs0 where v: "NewPRVersion p = Inr v"
    and vs0: "parsePrerelease ps = Inr vs0"
    by (auto split: sum.splits)
  from NewPRVersion_ToLower [OF v] Cons.IH [OF vs0] show ?case
    by auto
qed

lemma parseBuild_ToLower:
  "parseBuild bs = Inr vs \<Longrightarrow>
   \<exists>vs'. parseBuild (map (map toLowerChar) bs) = Inr vs'"
proof (induction bs arbitrary: vs)
  case Nil
  then show ?case by simp
next
  case (Cons b bs)
  from Cons.prems obtain vs0 where b: "b \<noteq> []" "containsOnly b alphanum"
    and vs0: "parseBuild bs = Inr vs0"
    by (auto split: sum.splits if_splits)
  from Cons.IH [OF vs0] b show ?case
    by (auto simp: containsOnly_alphanum_ToLower)
qed

lemma takeWhile_ToLower:
  assumes "\<And>c. toLowerChar c = sep \<longleftrightarrow> c = sep"
  shows "takeWhile (\<lambda>c. c \<noteq> sep) (map toLowerChar r) =
         map toLowerChar (takeWhile (\<lambda>c. c \<noteq> sep) r)"
  by (induction r) (auto simp: assms)

lemma dropWhile_ToLower:
  assumes "\<And>c. toLowerChar c = sep \<longleftrightarrow> c = sep"
  shows "dropWhile (\<lambda>c. c \<noteq> sep) (map toLowerChar r) =
         map toLowerChar (dropWhile (\<lambda>c. c \<noteq> sep) r)"
  by (induction r) (auto simp: assms)

lemma mem_ToLower:
  assumes "\<And>c. toLowerChar c = sep \<longleftrightarrow> c = sep"
  shows "sep \<in> set (map toLowerChar r) \<longleftrightarrow> sep \<in> set r"
proof -
  have "sep \<in> toLowerChar ` set r \<longleftrightarrow> (\<exists>c\<in>set r. toLowerChar c = sep)"
    by auto
  also have "\<dots> \<longleftrightarrow> sep \<in> set r"
    by (simp add: assms)
  finally show ?thesis by simp
qed

lemma hasLeadingZeroes_ToLower:
  "hasLeadingZeroes (map toLowerChar x) \<longleftrightarrow> hasLeadingZeroes x"
  by (cases x) (auto simp: hasLeadingZeroes_def)

text \<open>What a successful parse says about the string.\<close>

lemma Make_InrD:
  assumes "Make s = Inr v"
  obtains major minor rest where
    "s \<noteq> []" and "SplitN s CHR ''.'' 3 = [major, minor, rest]"
    and "containsOnly major numbers" and "\<not> hasLeadingZeroes major"
    and "\<exists>n. ParseUint major = Inr n"
    and "containsOnly minor numbers" and "\<not> hasLeadingZeroes minor"
    and "\<exists>n. ParseUint minor = Inr n"
    and "containsOnly (takeWhile (\<lambda>c. c \<noteq> CHR ''-'') (takeWhile (\<lambda>c. c \<noteq> CHR ''+'') rest)) numbers"
    and "\<not> hasLeadingZeroes (takeWhile (\<lambda>c. c \<noteq> CHR ''-'') (takeWhile (\<lambda>c. c \<noteq> CHR ''+'') rest))"
    and "\<exists>n. ParseUint (takeWhile (\<lambda>c. c \<noteq> CHR ''-'') (takeWhile (\<lambda>c. c \<noteq> CHR ''+'') rest)) = Inr n"
    and "\<exists>pre. parsePrerelease
           (if CHR ''-'' \<in> set (takeWhile (\<lambda>c. c \<noteq> CHR ''+'') rest)
            then Split (tl (dropWhile (\<lambda>c. c \<noteq> CHR ''-'') (takeWhile (\<lambda>c. c \<noteq> CHR ''+'') rest))) CHR ''.''
            else []) = Inr pre"
    and "\<exists>bld. parseBuild
           (if CHR ''+'' \<in> set rest
            then Split (tl (dropWhile (\<lambda>c. c \<noteq> CHR ''+'') rest)) CHR ''.''
            else []) = Inr bld"
proof -
  from assms have ne: "s \<noteq> []"
    by (auto simp: Make_def split: if_splits)
  from assms ne obtain major minor rest where sp: "SplitN s CHR ''.'' 3 = [major, minor, rest]"
    by (auto simp: Make_def split: list.splits)
  from assms ne sp show thesis
    by (intro that [of major minor rest])
       (auto simp: Make_def Let_def split: if_splits sum.splits)
qed

lemma Make_InrI:
  assumes "s \<noteq> []" and "SplitN s CHR ''.'' 3 = [major, minor, rest]"
    and "containsOnly major numbers" and "\<not> hasLeadingZeroes major"
    and "\<exists>n. ParseUint major = Inr n"
    and "containsOnly minor numbers" and "\<not> hasLeadingZeroes minor"
    and "\<exists>n. ParseUint minor = Inr n"
    and "containsOnly (takeWhile (\<lambda>c. c \<noteq> CHR ''-'') (takeWhile (\<lambda>c. c \<noteq> CHR ''+'') rest)) numbers"
    and "\<not> hasLeadingZeroes (takeWhile (\<lambda>c. c \<noteq> CHR ''-'') (takeWhile (\<lambda>c. c \<noteq> CHR ''+'') rest))"
    and "\<exists>n. ParseUint (takeWhile (\<lambda>c. c \<noteq> CHR ''-'') (takeWhile (\<lambda>c. c \<noteq> CHR ''+'') rest)) = Inr n"
    and "\<exists>pre. parsePrerelease
           (if CHR ''-'' \<in> set (takeWhile (\<lambda>c. c \<noteq> CHR ''+'') rest)
            then Split (tl (dropWhile (\<lambda>c. c \<noteq> CHR ''-'') (takeWhile (\<lambda>c. c \<noteq> CHR ''+'') rest))) CHR ''.''
            else []) = Inr pre"
    and "\<exists>bld. parseBuild
           (if CHR ''+'' \<in> set rest
            then Split (tl (dropWhile (\<lambda>c. c \<noteq> CHR ''+'') rest)) CHR ''.''
            else []) = Inr bld"
  shows "\<exists>v. Make s = Inr v"
  using assms by (auto simp: Make_def Let_def)

lemma Make_ToLower:
  assumes "Make s = Inr v"
  shows "\<exists>v'. Make (map toLowerChar s) = Inr v'"
proof -
  from assms obtain major minor rest where
    ne: "s \<noteq> []" and sp: "SplitN s CHR ''.'' 3 = [major, minor, rest]"
    and ma: "containsOnly major numbers" "\<not> hasLeadingZeroes major"
      "\<exists>n. ParseUint major = Inr n"
    and mi: "containsOnly minor numbers" "\<not> hasLeadingZeroes minor"
      "\<exists>n. ParseUint minor = Inr n"
    and pa: "containsOnly (takeWhile (\<lambda>c. c \<noteq> CHR ''-'') (takeWhile (\<lambda>c. c \<noteq> CHR ''+'') rest)) numbers"
      "\<not> hasLeadingZeroes (takeWhile (\<lambda>c. c \<noteq> CHR ''-'') (takeWhile (\<lambda>c. c \<noteq> CHR ''+'') rest))"
      "\<exists>n. ParseUint (takeWhile (\<lambda>c. c \<noteq> CHR ''-'') (takeWhile (\<lambda>c. c \<noteq> CHR ''+'') rest)) = Inr n"
    and pr: "\<exists>pre. parsePrerelease
           (if CHR ''-'' \<in> set (takeWhile (\<lambda>c. c \<noteq> CHR ''+'') rest)
            then Split (tl (dropWhile (\<lambda>c. c \<noteq> CHR ''-'') (takeWhile (\<lambda>c. c \<noteq> CHR ''+'') rest))) CHR ''.''
            else []) = Inr pre"
    and bu: "\<exists>bld. parseBuild
           (if CHR ''+'' \<in> set rest
            then Split (tl (dropWhile (\<lambda>c. c \<noteq> CHR ''+'') rest)) CHR ''.''
            else []) = Inr bld"
    by (rule Make_InrD)
  let ?L = "map toLowerChar"
  have sp': "SplitN (?L s) CHR ''.'' 3 = [major, minor, ?L rest]"
    using sp ma(1) mi(1) by (simp add: SplitN_ToLower ToLower_numbers_id)
  have p1: "takeWhile (\<lambda>c. c \<noteq> CHR ''+'') (?L rest) = ?L (takeWhile (\<lambda>c. c \<noteq> CHR ''+'') rest)"
    by (rule takeWhile_ToLower) simp
  have patch: "takeWhile (\<lambda>c. c \<noteq> CHR ''-'') (takeWhile (\<lambda>c. c \<noteq> CHR ''+'') (?L rest))
      = takeWhile (\<lambda>c. c \<noteq> CHR ''-'') (takeWhile (\<lambda>c. c \<noteq> CHR ''+'') rest)"
    using pa(1) by (simp add: p1 takeWhile_ToLower ToLower_numbers_id)
  have pre: "(if CHR ''-'' \<in> set (takeWhile (\<lambda>c. c \<noteq> CHR ''+'') (?L rest))
            then Split (tl (dropWhile (\<lambda>c. c \<noteq> CHR ''-'') (takeWhile (\<lambda>c. c \<noteq> CHR ''+'') (?L rest)))) CHR ''.''
            else [])
      = map ?L (if CHR ''-'' \<in> set (takeWhile (\<lambda>c. c \<noteq> CHR ''+'') rest)
            then Split (tl (dropWhile (\<lambda>c. c \<noteq> CHR ''-'') (takeWhile (\<lambda>c. c \<noteq> CHR ''+'') rest))) CHR ''.''
            else [])"
    by (simp add: p1 mem_ToLower dropWhile_ToLower Split_ToLower map_tl [symmetric]
          del: set_map)
  have bld: "(if CHR ''+'' \<in> set (?L rest)
            then Split (tl (dropWhile (\<lambda>c. c \<noteq> CHR ''+'') (?L rest))) CHR ''.''
            else [])
      = map ?L (if CHR ''+'' \<in> set rest
            then Split (tl (dropWhile (\<lambda>c. c \<noteq> CHR ''+'') rest)) CHR ''.''
            else [])"
    by (simp add: mem_ToLower dropWhile_ToLower Split_ToLower map_tl [symmetric]
          del: set_map)
  from pr obtain prv where "parsePrerelease
           (if CHR ''-'' \<in> set (takeWhile (\<lambda>c. c \<noteq> CHR ''+'') rest)
            then Split (tl (dropWhile (\<lambda>c. c \<noteq> CHR ''-'') (takeWhile (\<lambda>c. c \<noteq> CHR ''+'') rest))) CHR ''.''
            else []) = Inr prv" ..
  from parsePrerelease_ToLower [OF this]
  have pr': "\<exists>pre. parsePrerelease
           (if CHR ''-'' \<in> set (takeWhile (\<lambda>c. c \<noteq> CHR ''+'') (?L rest))
            then Split (tl (dropWhile (\<lambda>c. c \<noteq> CHR ''-'') (takeWhile (\<lambda>c. c \<noteq> CHR ''+'') (?L rest)))) CHR ''.''
            else []) = Inr pre"
    unfolding pre .
  from bu obtain bv where "parseBuild
           (if CHR ''+'' \<in> set rest
            then Split (tl (dropWhile (\<lambda>c. c \<noteq> CHR ''+'') rest)) CHR ''.''
            else []) = Inr bv" ..
  from parseBuild_ToLower [OF this]
  have bu': "\<exists>bld. parseBuild
           (if CHR ''+'' \<in> set (?L rest)
            then Split (tl (dropWhile (\<lambda>c. c \<noteq> CHR ''+'') (?L rest))) CHR ''.''
            else []) = Inr bld"
    unfolding bld .
  have ne': "?L s \<noteq> []" using ne by simp
  show ?thesis
    by (rule Make_InrI [OF ne' sp' ma mi pa [folded patch] pr' bu'])
qed

lemma SplitN_3_concat:
  "SplitN s sep 3 = [a, b, r] \<Longrightarrow> s = a @ sep # b @ sep # r"
proof -
  have two: "SplitN t sep (Suc (Suc 0)) = [b', r'] \<Longrightarrow> t = b' @ sep # r'" for t b' r'
    by (induction t arbitrary: b') (auto split: if_splits list.splits)
  have three: "SplitN t sep (Suc (Suc (Suc 0))) = [a', b', r'] \<Longrightarrow> t = a' @ sep # b' @ sep # r'"
    for t a' b' r'
    by (induction t arbitrary: a') (auto split: if_splits list.splits dest: two)
  show "SplitN s sep 3 = [a, b, r] \<Longrightarrow> s = a @ sep # b @ sep # r"
    by (simp add: numeral_3_eq_3 three)
qed

lemma ParseUint_not_Nil: "ParseUint x = Inr n \<Longrightarrow> x \<noteq> []"
  by (auto simp: ParseUint_def)

lemma cut_chars:
  "set r \<subseteq> set (takeWhile (\<lambda>c. c \<noteq> sep) r) \<union> {sep} \<union> set (tl (dropWhile (\<lambda>c. c \<noteq> sep) r))"
  by (induction r) auto

lemma cut_chars_absent:
  "sep \<notin> set r \<Longrightarrow> takeWhile (\<lambda>c. c \<noteq> sep) r = r"
  by (induction r) auto

lemma parseBuild_chars:
  "parseBuild bs = Inr vs \<Longrightarrow> b \<in> set bs \<Longrightarrow> c \<in> set b \<Longrightarrow> \<not> isSpace c"
proof (induction bs arbitrary: vs)
  case Nil
  then show ?case by simp
next
  case (Cons x xs)
  from Cons.prems(1) obtain vs0 where x: "containsOnly x alphanum"
    and xs: "parseBuild xs = Inr vs0"
    by (auto split: if_splits sum.splits)
  show ?case
  proof (cases "b = x")
    case True
    with x Cons.prems(3) show ?thesis
      by (auto simp: containsOnly_def list_all_iff dest: alphanum_not_space)
  next
    case False
    with Cons.prems(2) have "b \<in> set xs" by simp
    from Cons.IH [OF xs this Cons.prems(3)] show ?thesis .
  qed
qed

lemma NewPRVersion_chars:
  assumes "NewPRVersion p = Inr v" and "c \<in> set p"
  shows "\<not> isSpace c"
proof -
  from assms(1) have "containsOnly p numbers \<or> containsOnly p alphanum"
    by (auto simp: NewPRVersion_def split: if_splits)
  with assms(2) show ?thesis
    by (auto simp: containsOnly_def list_all_iff dest: alphanum_not_space numbers_not_space)
qed

lemma parsePrerelease_chars:
  "parsePrerelease ps = Inr vs \<Longrightarrow> p \<in> set ps \<Longrightarrow> c \<in> set p \<Longrightarrow> \<not> isSpace c"
proof (induction ps arbitrary: vs)
  case Nil
  then show ?case by simp
next
  case (Cons x xs)
  from Cons.prems(1) obtain v vs0 where x: "NewPRVersion x = Inr v"
    and xs: "parsePrerelease xs = Inr vs0"
    by (auto split: sum.splits)
  show ?case
  proof (cases "p = x")
    case True
    with x Cons.prems(3) show ?thesis by (auto dest: NewPRVersion_chars)
  next
    case False
    with Cons.prems(2) have "p \<in> set xs" by simp
    from Cons.IH [OF xs this Cons.prems(3)] show ?thesis .
  qed
qed

lemma dot_not_space: "\<not> isSpace CHR ''.''" "\<not> isSpace CHR ''+''" "\<not> isSpace CHR ''-''"
  by (simp_all add: isSpace_def)

lemma Split_fields_chars:
  assumes "\<And>x c. x \<in> set (Split t CHR ''.'') \<Longrightarrow> c \<in> set x \<Longrightarrow> \<not> isSpace c"
    and "c \<in> set t"
  shows "\<not> isSpace c"
proof (cases "c = CHR ''.''")
  case True
  then show ?thesis by (simp add: dot_not_space)
next
  case False
  with assms(2) have "c \<in> (\<Union>x\<in>set (Split t CHR ''.''). set x)"
    by (simp add: Split_chars)
  with assms(1) show ?thesis by blast
qed

lemma Make_chars:
  assumes "Make s = Inr v"
  shows "s \<noteq> []" and "hd s \<in> set numbers" and "\<forall>c\<in>set s. \<not> isSpace c"
proof -
  from assms obtain major minor rest where
    ne: "s \<noteq> []" and sp: "SplitN s CHR ''.'' 3 = [major, minor, rest]"
    and ma: "containsOnly major numbers" "\<not> hasLeadingZeroes major"
      "\<exists>n. ParseUint major = Inr n"
    and mi: "containsOnly minor numbers" "\<not> hasLeadingZeroes minor"
      "\<exists>n. ParseUint minor = Inr n"
    and pa: "containsOnly (takeWhile (\<lambda>c. c \<noteq> CHR ''-'') (takeWhile (\<lambda>c. c \<noteq> CHR ''+'') rest)) numbers"
      "\<not> hasLeadingZeroes (takeWhile (\<lambda>c. c \<noteq> CHR ''-'') (takeWhile (\<lambda>c. c \<noteq> CHR ''+'') rest))"
      "\<exists>n. ParseUint (takeWhile (\<lambda>c. c \<noteq> CHR ''-'') (takeWhile (\<lambda>c. c \<noteq> CHR ''+'') rest)) = Inr n"
    and pr: "\<exists>pre. parsePrerelease
           (if CHR ''-'' \<in> set (takeWhile (\<lambda>c. c \<noteq> CHR ''+'') rest)
            then Split (tl (dropWhile (\<lambda>c. c \<noteq> CHR ''-'') (takeWhile (\<lambda>c. c \<noteq> CHR ''+'') rest))) CHR ''.''
            else []) = Inr pre"
    and bu: "\<exists>bld. parseBuild
           (if CHR ''+'' \<in> set rest
            then Split (tl (dropWhile (\<lambda>c. c \<noteq> CHR ''+'') rest)) CHR ''.''
            else []) = Inr bld"
    by (rule Make_InrD)
  show "s \<noteq> []" by (rule ne)
  have s: "s = major @ CHR ''.'' # minor @ CHR ''.'' # rest"
    using sp by (rule SplitN_3_concat)
  from ma(3) have "major \<noteq> []" by (auto dest: ParseUint_not_Nil)
  with ma(1) s show "hd s \<in> set numbers"
    by (cases major) (auto simp: containsOnly_def)
  let ?p1 = "takeWhile (\<lambda>c. c \<noteq> CHR ''+'') rest"
  let ?bs = "tl (dropWhile (\<lambda>c. c \<noteq> CHR ''+'') rest)"
  let ?patch = "takeWhile (\<lambda>c. c \<noteq> CHR ''-'') ?p1"
  let ?ps = "tl (dropWhile (\<lambda>c. c \<noteq> CHR ''-'') ?p1)"
  have build_ok: "\<not> isSpace c" if "c \<in> set ?bs" for c
  proof (cases "CHR ''+'' \<in> set rest")
    case True
    with bu obtain bld where b: "parseBuild (Split ?bs CHR ''.'') = Inr bld" by auto
    show ?thesis
      by (rule Split_fields_chars [OF _ that]) (rule parseBuild_chars [OF b])
  next
    case False
    then have "dropWhile (\<lambda>c. c \<noteq> CHR ''+'') rest = []" by (induction rest) auto
    with that show ?thesis by simp
  qed
  have pre_ok: "\<not> isSpace c" if "c \<in> set ?ps" for c
  proof (cases "CHR ''-'' \<in> set ?p1")
    case True
    with pr obtain pre where p: "parsePrerelease (Split ?ps CHR ''.'') = Inr pre" by auto
    show ?thesis
      by (rule Split_fields_chars [OF _ that]) (rule parsePrerelease_chars [OF p])
  next
    case False
    then have "dropWhile (\<lambda>c. c \<noteq> CHR ''-'') ?p1 = []" by (induction ?p1) auto
    with that show ?thesis by simp
  qed
  have patch_ok: "\<not> isSpace c" if "c \<in> set ?patch" for c
    using pa(1) that by (auto simp: containsOnly_def list_all_iff dest: numbers_not_space)
  have p1_ok: "\<not> isSpace c" if "c \<in> set ?p1" for c
    using cut_chars [of ?p1 "CHR ''-''"] that patch_ok pre_ok dot_not_space by blast
  have rest_ok: "\<not> isSpace c" if "c \<in> set rest" for c
    using cut_chars [of rest "CHR ''+''"] that p1_ok build_ok dot_not_space by blast
  have major_ok: "\<not> isSpace c" if "c \<in> set major" for c
    using ma(1) that by (auto simp: containsOnly_def list_all_iff dest: numbers_not_space)
  have minor_ok: "\<not> isSpace c" if "c \<in> set minor" for c
    using mi(1) that by (auto simp: containsOnly_def list_all_iff dest: numbers_not_space)
  show "\<forall>c\<in>set s. \<not> isSpace c"
    using major_ok minor_ok rest_ok dot_not_space by (auto simp: s)
qed

lemma TrimSpace_sandwich:
  assumes "list_all isSpace ws1" and "list_all isSpace ws2"
    and "x \<noteq> []" and "\<not> isSpace (hd x)" and "\<not> isSpace (last x)"
  shows "TrimSpace (ws1 @ x @ ws2) = x"
proof -
  from assms(3,4) obtain y ys where x: "x = y # ys" and y: "\<not> isSpace y"
    by (cases x) auto
  from assms(1) have "dropWhile isSpace (ws1 @ x @ ws2) = dropWhile isSpace (x @ ws2)"
    by (simp add: dropWhile_append2 list_all_iff)
  also have "\<dots> = x @ ws2" using x y by simp
  finally have front: "dropWhile isSpace (ws1 @ x @ ws2) = x @ ws2" .
  from assms(3,5) obtain z zs where rx: "rev x = z # zs" and z: "\<not> isSpace z"
    by (cases "rev x") (auto simp: last_rev [symmetric] simp del: last_rev)
  have "dropWhile isSpace (rev ws2 @ rev x) = dropWhile isSpace (rev x)"
    by (rule dropWhile_append2) (use assms(2) in \<open>simp add: list_all_iff\<close>)
  also have "\<dots> = rev x" using rx z by simp
  finally show ?thesis by (simp add: TrimSpace_def front)
qed

lemma validateSemVer_lenient:
  assumes "Make s = Inr v" and "list_all isSpace ws1" and "list_all isSpace ws2"
    and "pre = [] \<or> pre = ''v'' \<or> pre = ''V''"
  shows "validateSemVer (ws1 @ pre @ s @ ws2) = Inr ()"
proof -
  let ?L = "map toLowerChar"
  from Make_ToLower [OF assms(1)] obtain v' where v': "Make (?L s) = Inr v'" ..
  note ch = Make_chars [OF v']
  from ch(2) have hd_digit: "hd (?L s) \<noteq> CHR ''v''"
    by (auto simp: numbers_def)
  from ch(2) have hd_ns: "\<not> isSpace (hd (?L s))"
    by (rule numbers_not_space)
  from ch(1) have "last (?L s) \<in> set (?L s)" by (rule last_in_set)
  with ch(3) have last_ns: "\<not> isSpace (last (?L s))" by blast
  have lw1: "list_all isSpace (?L ws1)" and lw2: "list_all isSpace (?L ws2)"
    using assms(2,3) by (simp_all add: list_all_iff)
  have lower: "ToLower (ws1 @ pre @ s @ ws2) = ?L ws1 @ (?L pre @ ?L s) @ ?L ws2"
    by (simp add: ToLower_def)
  have pre': "?L pre = [] \<or> ?L pre = ''v''"
    using assms(4) by (auto simp: toLowerChar_def char_of_eq_iff)
  have ne: "?L pre @ ?L s \<noteq> []" using ch(1) by simp
  have h: "\<not> isSpace (hd (?L pre @ ?L s))"
    using pre' hd_ns by (auto simp: isSpace_def)
  have l: "\<not> isSpace (last (?L pre @ ?L s))"
    using ch(1) last_ns by simp
  have trim: "TrimSpace (ToLower (ws1 @ pre @ s @ ws2)) = ?L pre @ ?L s"
    unfolding lower by (rule TrimSpace_sandwich [OF lw1 lw2 ne h l])
  have "TrimPrefix (?L pre @ ?L s) ''v'' = ?L s"
    using pre' hd_digit ch(1) by (cases "?L s") (auto simp: TrimPrefix_def)
  with trim v' show ?thesis by (simp add: validateSemVer_def)
qed

text \<open>
  Claim C9. The version check is lenient: when \<open>s\<close> is a semantic version (the parser
  accepts it as it is), the validators of the product and the application ring also accept
  \<open>s\<close> with white space around it, with a leading \<open>v\<close> or \<open>V\<close>, or both, because the segment
  is lower-cased and trimmed before one leading \<open>v\<close> is removed. The parser itself refuses
  the two examples of the claim; \<open>Validate\<close> accepts them as version segments.
\<close>

theorem C9_semver_leniency:
  assumes "Make s = Inr v"
    and "list_all isSpace ws1" and "list_all isSpace ws2"
    and "pre = [] \<or> pre = ''v'' \<or> pre = ''V''"
  shows
    "validateSemVer (ws1 @ pre @ s @ ws2) = Inr () \<and>
     (validation_Validate name = None \<longrightarrow>
        validateProduct (name # (ws1 @ pre @ s @ ws2) # key # others) = Inr ()) \<and>
     (Contains platformQualityLevels stage \<and> validation_Validate platform = None \<and>
      validation_Validate product = None \<and> validation_Validate component = None \<longrightarrow>
        validateApplication
          (stage # platform # product # (ws1 @ pre @ s @ ws2) # component # key # others) = Inr ()) \<and>
     Make '' 1.0.0 '' = Inl (ErrMajorChars '' 1'') \<and>
     Make ''V2.3.1'' = Inl (ErrMajorChars ''V2'') \<and>
     Validate ''product/payments/ 1.0.0 /key'' = Inr () \<and>
     Validate ''product/payments/V2.3.1/key'' = Inr () \<and>
     Validate ''app/staging/checkout/payments/ 1.0.0 /worker/key'' = Inr () \<and>
     Validate ''app/staging/checkout/payments/V2.3.1/worker/key'' = Inr ()"
proof -
  note ok = validateSemVer_lenient [OF assms]
  have e1: "Make '' 1.0.0 '' = Inl (ErrMajorChars '' 1'')" by code_simp
  have e2: "Make ''V2.3.1'' = Inl (ErrMajorChars ''V2'')" by code_simp
  have e3: "Validate ''product/payments/ 1.0.0 /key'' = Inr ()" by code_simp
  have e4: "Validate ''product/payments/V2.3.1/key'' = Inr ()" by code_simp
  have e5: "Validate ''app/staging/checkout/payments/ 1.0.0 /worker/key'' = Inr ()" by code_simp
  have e6: "Validate ''app/staging/checkout/payments/V2.3.1/worker/key'' = Inr ()" by code_simp
  have p: "validation_Validate name = None \<longrightarrow>
        validateProduct (name # (ws1 @ pre @ s @ ws2) # key # others) = Inr ()"
    using ok by (simp add: validateProduct_ok_iff)
  have a: "Contains platformQualityLevels stage \<and> validation_Validate platform = None \<and>
      validation_Validate product = None \<and> validation_Validate component = None \<longrightarrow>
        validateApplication
          (stage # platform # product # (ws1 @ pre @ s @ ws2) # component # key # others) = Inr ()"
    using ok by (simp add: validateApplication_ok_iff)
  from ok p a e1 e2 e3 e4 e5 e6 show ?thesis by (intro conjI)
qed

theorem C9_semver_leniency_witness:
  "Make ''2.3.1-RC.1'' =
     Inr \<lparr>Major = 2, Minor = 3, Patch = 1, Pre = [PRStr ''RC'', PRNum 1], Build = []\<rparr> \<and>
   list_all isSpace '' '' \<and>
   validateSemVer ('' '' @ ''V'' @ ''2.3.1-RC.1'' @ '' '') = Inr () \<and>
   validation_Validate ''payments'' = None \<and>
   validateProduct [''payments'', '' V2.3.1-RC.1 '', ''key''] = Inr ()"
proof -
  have h1: "Make ''2.3.1-RC.1'' =
     Inr \<lparr>Major = 2, Minor = 3, Patch = 1, Pre = [PRStr ''RC'', PRNum 1], Build = []\<rparr>"
    by code_simp
  have h2: "list_all isSpace '' ''"
    by (simp add: isSpace_def)
  have h3: "''V'' = [] \<or> ''V'' = ''v'' \<or> ''V'' = ''V''"
    by simp
  have h4: "validation_Validate ''payments'' = None"
    by (simp add: validation_Validate_def IsPrintableASCII_def isPrintableASCIIChar_def)
  from C9_semver_leniency [OF h1 h2 h2 h3, of "''payments''" "''key''" "[]"] h4
  have "validateSemVer ('' '' @ ''V'' @ ''2.3.1-RC.1'' @ '' '') = Inr () \<and>
        validateProduct [''payments'', '' V2.3.1-RC.1 '', ''key''] = Inr ()"
    by simp
  with h1 h2 h4 show ?thesis by blast
qed

section \<open>Properties of the secret value codec\<close>

subsection \<open>Bytes\<close>

lemma div_lt: "n < a * k \<Longrightarrow> n div k < a" for n a k :: nat
  by (cases "k = 0") (simp_all add: div_less_iff_less_mult)

lemma div_ge: "a * k \<le> n \<Longrightarrow> 0 < k \<Longrightarrow> a \<le> n div k" for n a k :: nat
  by (simp add: less_eq_div_iff_mult_less_eq)

lemma byte_and_7f: "unat ((b::byte) AND 0x7f) = unat b mod 128"
proof -
  have "(0x7f :: byte) = mask 7" by (simp add: mask_eq_exp_minus_1)
  then have "b AND 0x7f = take_bit 7 b" by (simp only: take_bit_eq_mask)
  then have "unat (b AND 0x7f) = unat (take_bit 7 b)" by (simp only:)
  also have "\<dots> = take_bit 7 (unat b)" by (rule unsigned_take_bit_eq)
  also have "\<dots> = unat b mod 128" by (simp add: take_bit_eq_mod)
  finally show ?thesis .
qed

lemma byte_and_80: "((b::byte) AND 0x80 = 0) = (unat b < 128)"
proof -
  have lt: "unat b < 256" using unsigned_less [of b] by simp
  have "(0x80 :: byte) = 2 ^ 7" by simp
  then have "(b AND 0x80 = 0) = (\<not> bit b 7)"
    by (simp only: and_exp_eq_0_iff_not_bit)
  also have "bit b 7 = bit (unat b) 7"
    by (simp add: bit_unsigned_iff)
  also have "\<dots> = odd (unat b div 128)"
    by (simp add: bit_iff_odd)
  also have "(\<not> odd (unat b div 128)) = (unat b < 128)"
  proof (cases "unat b < 128")
    case True
    then show ?thesis by simp
  next
    case False
    then have "1 \<le> unat b div 128" by (intro div_ge) simp_all
    moreover from lt have "unat b div 128 < 2" by (intro div_lt) simp
    ultimately have "unat b div 128 = 1" by simp
    with False show ?thesis by simp
  qed
  finally show ?thesis .
qed

lemma unat_byte_of_nat: "n < 256 \<Longrightarrow> unat (of_nat n :: byte) = n"
  by (simp add: unat_of_nat)

lemma short_length_byte:
  assumes "n < 128"
  shows "(of_nat n :: byte) AND 0x80 = 0" and "unat ((of_nat n :: byte) AND 0x7f) = n"
  using assms by (simp_all add: byte_and_80 byte_and_7f unat_of_nat)

subsection \<open>The header: what was appended is parsed back\<close>

lemma lengthLength_1: "n \<le> 255 \<Longrightarrow> lengthLength n = Suc 0"
  by (subst lengthLength.simps) (simp del: lengthLength.simps)

lemma lengthLength_2:
  assumes "255 < n" and "n \<le> 65535"
  shows "lengthLength n = Suc (Suc 0)"
proof -
  from assms have "n div 256 < 256" by (intro div_lt) simp
  then have "n div 256 \<le> 255" by simp
  then have "lengthLength (n div 256) = Suc 0" by (rule lengthLength_1)
  with assms(1) show ?thesis by (subst lengthLength.simps) (simp del: lengthLength.simps)
qed

lemma lengthLength_3:
  assumes "65535 < n" and "n \<le> 16777215"
  shows "lengthLength n = Suc (Suc (Suc 0))"
proof -
  from assms have "256 \<le> n div 256" by (intro div_ge) simp_all
  then have "255 < n div 256" by simp
  moreover from assms have "n div 256 < 65536" by (intro div_lt) simp
  then have "n div 256 \<le> 65535" by simp
  ultimately
  have "lengthLength (n div 256) = Suc (Suc 0)" by (rule lengthLength_2)
  with assms(1) show ?thesis by (subst lengthLength.simps) (simp del: lengthLength.simps)
qed

lemma lengthLength_4:
  assumes "16777215 < n" and "n \<le> 4294967295"
  shows "lengthLength n = Suc (Suc (Suc (Suc 0)))"
proof -
  from assms have "65536 \<le> n div 256" by (intro div_ge) simp_all
  then have "65535 < n div 256" by simp
  moreover from assms have "n div 256 < 16777216" by (intro div_lt) simp
  then have "n div 256 \<le> 16777215" by simp
  ultimately
  have "lengthLength (n div 256) = Suc (Suc (Suc 0))" by (rule lengthLength_3)
  with assms(1) show ?thesis by (subst lengthLength.simps) (simp del: lengthLength.simps)
qed

lemma long_length_1:
  assumes "128 \<le> n" and "n \<le> 255"
  shows "parseLengthLoop 1 0 (appendLengthLoop (Suc 0) n @ rest) = Inr (n, rest)"
  using assms by (simp add: unat_of_nat)

lemma long_length_2:
  assumes "255 < n" and "n \<le> 65535"
  shows "parseLengthLoop 2 0 (appendLengthLoop (Suc (Suc 0)) n @ rest) = Inr (n, rest)"
proof -
  have "n div 256 < 256" by (rule div_lt) (use assms in simp)
  then have a: "n div 256 mod 256 = n div 256" by simp
  have "1 \<le> n div 256" by (rule div_ge) (use assms in simp_all)
  then have b: "n div 256 \<noteq> 0" by simp
  have c: "n div 256 < 8388608" by (rule div_lt) (use assms in simp)
  have d: "n div 256 * 256 + n mod 256 = n" by simp
  from assms(1) have e: "n \<noteq> 0" by simp
  have "parseLengthLoop (Suc (Suc 0)) 0 (appendLengthLoop (Suc (Suc 0)) n @ rest) = Inr (n, rest)"
    using a b c d e by (simp add: unat_of_nat Let_def)
  then show ?thesis by (simp only: numeral_2_eq_2)
qed

lemma long_length_3:
  assumes "65535 < n" and "n \<le> 16777215"
  shows "parseLengthLoop 3 0 (appendLengthLoop (Suc (Suc (Suc 0))) n @ rest) = Inr (n, rest)"
proof -
  have "n div 65536 < 256" by (rule div_lt) (use assms in simp)
  then have a: "n div 65536 mod 256 = n div 65536" by simp
  have "1 \<le> n div 65536" by (rule div_ge) (use assms in simp_all)
  then have b: "n div 65536 \<noteq> 0" by simp
  have c: "n div 65536 < 8388608" by (rule div_lt) (use assms in simp)
  have "n div (256 * 256) = n div 256 div 256" by (rule div_mult2_eq)
  then have d: "n div 65536 * 256 + n div 256 mod 256 = n div 256" by simp
  have "1 \<le> n div 256" by (rule div_ge) (use assms in simp_all)
  then have d0: "n div 256 \<noteq> 0" by simp
  have c1: "n div 256 < 8388608" by (rule div_lt) (use assms in simp)
  have f: "n div 256 * 256 + n mod 256 = n" by simp
  from assms(1) have e: "n \<noteq> 0" by simp
  have "parseLengthLoop (Suc (Suc (Suc 0))) 0 (appendLengthLoop (Suc (Suc (Suc 0))) n @ rest) =
        Inr (n, rest)"
    using a b c d d0 c1 f e by (simp add: unat_of_nat Let_def)
  then show ?thesis by (simp only: numeral_3_eq_3)
qed

lemma long_length_4:
  assumes "16777215 < n" and "n < 2147483648"
  shows "parseLengthLoop 4 0
           (appendLengthLoop (Suc (Suc (Suc (Suc 0)))) n @ rest) = Inr (n, rest)"
proof -
  have "n div 16777216 < 256" by (rule div_lt) (use assms in simp)
  then have a: "n div 16777216 mod 256 = n div 16777216" by simp
  have "1 \<le> n div 16777216" by (rule div_ge) (use assms in simp_all)
  then have b: "n div 16777216 \<noteq> 0" by simp
  have c: "n div 16777216 < 8388608" by (rule div_lt) (use assms in simp)
  have "n div (65536 * 256) = n div 65536 div 256" by (rule div_mult2_eq)
  then have d: "n div 16777216 * 256 + n div 65536 mod 256 = n div 65536" by simp
  have "1 \<le> n div 65536" by (rule div_ge) (use assms in simp_all)
  then have d0: "n div 65536 \<noteq> 0" by simp
  have c1: "n div 65536 < 8388608" by (rule div_lt) (use assms in simp)
  have "n div (256 * 256) = n div 256 div 256" by (rule div_mult2_eq)
  then have g: "n div 65536 * 256 + n div 256 mod 256 = n div 256" by simp
  have "1 \<le> n div 256" by (rule div_ge) (use assms in simp_all)
  then have g0: "n div 256 \<noteq> 0" by simp
  have c2: "n div 256 < 8388608" by (rule div_lt) (use assms in simp)
  have f: "n div 256 * 256 + n mod 256 = n" by simp
  from assms(1) have e: "n \<noteq> 0" by simp
  have four: "(4::nat) = Suc (Suc (Suc (Suc 0)))" by simp
  have "parseLengthLoop (Suc (Suc (Suc (Suc 0)))) 0
          (appendLengthLoop (Suc (Suc (Suc (Suc 0)))) n @ rest) = Inr (n, rest)"
    using a b c d d0 c1 g g0 c2 f e by (simp add: unat_of_nat Let_def)
  then show ?thesis by (simp only: four)
qed

text \<open>The length bytes of a length below \<open>2^31\<close> are parsed back.\<close>

lemma parse_length_bytes:
  assumes "n < 2 ^ 31" and low: "unat (ident AND 0x1f) \<noteq> 0x1f"
  shows "parseTagAndLength
           (ident #
            (if n \<ge> 128 then (0x80 OR of_nat (lengthLength n)) # appendLength n
             else [of_nat n]) @ rest) =
         Inr (\<lparr>tclass = unat (drop_bit 6 ident), ttag = unat (ident AND 0x1f),
               tlength = n, tisCompound = (ident AND 0x20 = 0x20)\<rparr>, rest)"
proof -
  show ?thesis
  proof (cases "n < 128")
    case True
    with low show ?thesis
      by (simp add: parseTagAndLength_def short_length_byte)
  next
    case False
    from assms have n: "n < 2147483648" by simp
    consider (1) "n \<le> 255" | (2) "255 < n" "n \<le> 65535"
      | (3) "65535 < n" "n \<le> 16777215" | (4) "16777215 < n"
      by linarith
    then show ?thesis
    proof cases
      case 1
      have ll: "lengthLength n = Suc 0" using 1 by (rule lengthLength_1)
      from False 1 have pl: "parseLengthLoop 1 0 (appendLengthLoop (Suc 0) n @ rest) = Inr (n, rest)"
        by (intro long_length_1) simp_all
      from False low pl show ?thesis
        by (simp add: parseTagAndLength_def appendLength_def ll
              del: appendLengthLoop.simps lengthLength.simps parseLengthLoop.simps)
    next
      case 2
      have ll: "lengthLength n = Suc (Suc 0)" using 2 by (rule lengthLength_2)
      note pl = long_length_2 [OF 2, of rest]
      from False low pl show ?thesis
        by (simp add: parseTagAndLength_def appendLength_def ll
              del: appendLengthLoop.simps lengthLength.simps parseLengthLoop.simps)
    next
      case 3
      have ll: "lengthLength n = Suc (Suc (Suc 0))" using 3 by (rule lengthLength_3)
      note pl = long_length_3 [OF 3, of rest]
      from False low pl show ?thesis
        by (simp add: parseTagAndLength_def appendLength_def ll
              del: appendLengthLoop.simps lengthLength.simps parseLengthLoop.simps)
    next
      case 4
      with n have ll: "lengthLength n = Suc (Suc (Suc (Suc 0)))"
        by (intro lengthLength_4) simp_all
      note pl = long_length_4 [OF 4 n, of rest]
      from False low pl show ?thesis
        by (simp add: parseTagAndLength_def appendLength_def ll
              del: appendLengthLoop.simps lengthLength.simps parseLengthLoop.simps)
    qed
  qed
qed

lemma header_OctetString:
  assumes "n < 2 ^ 31"
  shows "parseTagAndLength
           (appendTagAndLength \<lparr>tclass = ClassUniversal, ttag = TagOctetString, tlength = n,
              tisCompound = False\<rparr> @ rest) =
         Inr (\<lparr>tclass = ClassUniversal, ttag = TagOctetString, tlength = n,
               tisCompound = False\<rparr>, rest)"
proof -
  have "unat ((0x04 :: byte) AND 0x1f) \<noteq> 0x1f" by simp
  from parse_length_bytes [OF assms this, of rest] show ?thesis
    by (cases "128 \<le> n")
       (simp_all add: appendTagAndLength_def ClassUniversal_def TagOctetString_def
          del: lengthLength.simps)
qed

lemma header_PrintableString:
  assumes "n < 2 ^ 31"
  shows "parseTagAndLength
           (appendTagAndLength \<lparr>tclass = ClassUniversal, ttag = TagPrintableString, tlength = n,
              tisCompound = False\<rparr> @ rest) =
         Inr (\<lparr>tclass = ClassUniversal, ttag = TagPrintableString, tlength = n,
               tisCompound = False\<rparr>, rest)"
proof -
  have "unat ((0x13 :: byte) AND 0x1f) \<noteq> 0x1f" by simp
  from parse_length_bytes [OF assms this, of rest] show ?thesis
    by (cases "128 \<le> n")
       (simp_all add: appendTagAndLength_def ClassUniversal_def TagPrintableString_def
          del: lengthLength.simps)
qed

lemma header_UTF8String:
  assumes "n < 2 ^ 31"
  shows "parseTagAndLength
           (appendTagAndLength \<lparr>tclass = ClassUniversal, ttag = TagUTF8String, tlength = n,
              tisCompound = False\<rparr> @ rest) =
         Inr (\<lparr>tclass = ClassUniversal, ttag = TagUTF8String, tlength = n,
               tisCompound = False\<rparr>, rest)"
proof -
  have "unat ((0x0c :: byte) AND 0x1f) \<noteq> 0x1f" by simp
  from parse_length_bytes [OF assms this, of rest] show ?thesis
    by (cases "128 \<le> n")
       (simp_all add: appendTagAndLength_def ClassUniversal_def TagUTF8String_def
          del: lengthLength.simps)
qed

lemma header_Sequence:
  assumes "n < 2 ^ 31"
  shows "parseTagAndLength
           (appendTagAndLength \<lparr>tclass = ClassUniversal, ttag = TagSequence, tlength = n,
              tisCompound = True\<rparr> @ rest) =
         Inr (\<lparr>tclass = ClassUniversal, ttag = TagSequence, tlength = n,
               tisCompound = True\<rparr>, rest)"
proof -
  have "unat ((0x30 :: byte) AND 0x1f) \<noteq> 0x1f" by simp
  from parse_length_bytes [OF assms this, of rest] show ?thesis
    by (cases "128 \<le> n")
       (simp_all add: appendTagAndLength_def ClassUniversal_def TagSequence_def
          del: lengthLength.simps)
qed

lemma appendTagAndLength_not_Nil: "appendTagAndLength t \<noteq> []"
  by (simp add: appendTagAndLength_def Let_def)

subsection \<open>Fields and the value: what was marshalled is parsed back\<close>

lemma parseFieldBytes_make:
  assumes "length bs < 2 ^ 31"
  shows "parseFieldBytes (makeFieldBytes bs @ rest) = Inr (bs, rest)"
proof -
  have ne: "appendTagAndLength \<lparr>tclass = ClassUniversal, ttag = TagOctetString,
      tlength = length bs, tisCompound = False\<rparr> @ bs @ rest \<noteq> []"
    by (simp add: appendTagAndLength_not_Nil)
  show ?thesis
    using ne header_OctetString [OF assms, of "bs @ rest"]
    by (simp add: parseFieldBytes_def parseFieldHeader_def makeFieldBytes_def
          ClassUniversal_def TagOctetString_def TagPrintableString_def)
qed

lemma isPrintable_weaken: "isPrintable b False False \<Longrightarrow> isPrintable b True True"
  by (auto simp: isPrintable_def)

lemma parseFieldString_make:
  assumes "makeFieldString s = Inr enc" and "length s < 2 ^ 31"
  shows "parseFieldString (enc @ rest) = Inr (s, rest)"
proof (cases "list_all (\<lambda>b. isPrintable b False False) s")
  case True
  then have p: "list_all (\<lambda>b. isPrintable b True True) s"
    by (auto simp: list_all_iff intro: isPrintable_weaken)
  from True assms(1) have enc: "enc = appendTagAndLength \<lparr>tclass = ClassUniversal,
      ttag = TagPrintableString, tlength = length s, tisCompound = False\<rparr> @ s"
    by (simp add: makeFieldString_def)
  have ne: "enc @ rest \<noteq> []"
    by (simp add: enc appendTagAndLength_not_Nil)
  show ?thesis
    using ne p header_PrintableString [OF assms(2), of "s @ rest"]
    by (simp add: enc parseFieldString_def parseFieldHeader_def parsePrintableString_def
          ClassUniversal_def TagPrintableString_def TagIA5String_def TagGeneralString_def
          TagT61String_def TagUTF8String_def TagNumericString_def TagBMPString_def)
next
  case False
  with assms(1) have u: "utf8Valid s"
    and enc: "enc = appendTagAndLength \<lparr>tclass = ClassUniversal,
      ttag = TagUTF8String, tlength = length s, tisCompound = False\<rparr> @ s"
    by (auto simp: makeFieldString_def split: if_splits)
  have ne: "enc @ rest \<noteq> []"
    by (simp add: enc appendTagAndLength_not_Nil)
  show ?thesis
    using ne u header_UTF8String [OF assms(2), of "s @ rest"]
    by (simp add: enc parseFieldString_def parseFieldHeader_def parseUTF8String_def
          ClassUniversal_def TagPrintableString_def TagIA5String_def TagGeneralString_def
          TagT61String_def TagUTF8String_def TagNumericString_def TagBMPString_def)
qed

lemma makeFieldString_length:
  "makeFieldString s = Inr enc \<Longrightarrow> length s \<le> length enc"
  by (auto simp: makeFieldString_def split: if_splits)

lemma parseFieldValue_make:
  assumes "makeFieldValue v = Inr enc" and "length enc < 2 ^ 31"
  shows "parseFieldValue (enc @ rest) = Inr (v, rest)"
proof -
  from assms(1) obtain ty where ty: "makeFieldString (Type v) = Inr ty"
    and enc: "enc = appendTagAndLength \<lparr>tclass = ClassUniversal, ttag = TagSequence,
        tlength = length (ty @ makeFieldBytes (Body v)), tisCompound = True\<rparr> @
        ty @ makeFieldBytes (Body v)"
    by (auto simp: makeFieldValue_def Let_def split: sum.splits)
  let ?body = "ty @ makeFieldBytes (Body v)"
  from enc assms(2) have lb: "length ?body < 2 ^ 31" by simp
  have "length (Body v) \<le> length (makeFieldBytes (Body v))"
    by (simp add: makeFieldBytes_def)
  with lb have lbody: "length (Body v) < 2 ^ 31" by simp
  from makeFieldString_length [OF ty] lb have lty: "length (Type v) < 2 ^ 31" by simp
  have ne: "enc @ rest \<noteq> []"
    by (simp add: enc appendTagAndLength_not_Nil)
  have hdr: "parseFieldHeader KindStruct (enc @ rest) = Inr (TagSequence, ?body, rest)"
    using ne header_Sequence [OF lb, of "?body @ rest"]
    by (simp add: enc parseFieldHeader_def ClassUniversal_def TagSequence_def
          TagPrintableString_def)
  have f1: "parseFieldString ?body = Inr (Type v, makeFieldBytes (Body v))"
    by (rule parseFieldString_make [OF ty lty])
  have f2: "parseFieldBytes (makeFieldBytes (Body v)) = Inr (Body v, [])"
    using parseFieldBytes_make [OF lbody, of "[]"] by simp
  show ?thesis
    by (simp add: parseFieldValue_def hdr f1 f2)
qed

lemma Unpack_Pack:
  assumes "Pack v = Inr p" and "length p < 2 ^ 31"
  shows "Unpack (p @ s) = Inr v"
proof -
  from assms(1) have "makeFieldValue v = Inr p"
    by (auto simp: Pack_def Marshal_def split: sum.splits)
  from parseFieldValue_make [OF this assms(2), of s] show ?thesis
    by (simp add: Unpack_def Unmarshal_def)
qed

subsection \<open>When \<open>Pack\<close> succeeds, and how long the envelope is\<close>

lemma isPrintable_ascii: "isPrintable b False False \<Longrightarrow> b < 0x80"
  by (auto simp: isPrintable_def word_le_nat_alt word_less_nat_alt)

lemma ascii_utf8Valid: "list_all (\<lambda>b. b < 0x80) s \<Longrightarrow> utf8Valid s"
  by (induction s) auto

lemma printable_utf8Valid: "list_all (\<lambda>b. isPrintable b False False) s \<Longrightarrow> utf8Valid s"
  by (rule ascii_utf8Valid) (auto simp: list_all_iff dest: isPrintable_ascii)

lemma makeFieldString_ok_iff: "(\<exists>enc. makeFieldString s = Inr enc) \<longleftrightarrow> utf8Valid s"
  by (auto simp: makeFieldString_def dest: printable_utf8Valid)

lemma Pack_ok_iff: "(\<exists>p. Pack v = Inr p) \<longleftrightarrow> utf8Valid (Type v)"
proof -
  have "(\<exists>p. Pack v = Inr p) \<longleftrightarrow> (\<exists>enc. makeFieldString (Type v) = Inr enc)"
    by (auto simp: Pack_def Marshal_def makeFieldValue_def Let_def split: sum.splits)
  then show ?thesis by (simp add: makeFieldString_ok_iff)
qed

lemma Pack_error:
  "\<not> utf8Valid (Type v) \<Longrightarrow> Pack v = Inl (ErrPack ErrStringNotUTF8)"
  by (auto simp: Pack_def Marshal_def makeFieldValue_def makeFieldString_def
        dest: printable_utf8Valid)

lemma lengthLength_le_4: "n < 2 ^ 31 \<Longrightarrow> lengthLength n \<le> 4"
proof -
  assume "n < 2 ^ 31"
  then have n: "n \<le> 4294967295" by simp
  consider (1) "n \<le> 255" | (2) "255 < n" "n \<le> 65535"
    | (3) "65535 < n" "n \<le> 16777215" | (4) "16777215 < n"
    by linarith
  then show ?thesis
  proof cases
    case 1 then show ?thesis by (simp add: lengthLength_1 del: lengthLength.simps)
  next
    case 2 then show ?thesis by (simp add: lengthLength_2 del: lengthLength.simps)
  next
    case 3 then show ?thesis by (simp add: lengthLength_3 del: lengthLength.simps)
  next
    case 4 with n show ?thesis by (simp add: lengthLength_4 del: lengthLength.simps)
  qed
qed

lemma appendLengthLoop_length [simp]: "length (appendLengthLoop k n) = k"
  by (induction k) auto

lemma header_length:
  assumes "ttag t < 31" and "tlength t < 2 ^ 31"
  shows "length (appendTagAndLength t) \<le> 6"
  using assms lengthLength_le_4 [of "tlength t"]
  by (simp add: appendTagAndLength_def Let_def appendLength_def del: lengthLength.simps)

lemma Pack_length:
  assumes "Pack v = Inr p" and "length (Type v) + length (Body v) + 18 < 2 ^ 31"
  shows "length p \<le> length (Type v) + length (Body v) + 18"
proof -
  from assms(1) obtain ty where ty: "makeFieldString (Type v) = Inr ty"
    and p: "p = appendTagAndLength \<lparr>tclass = ClassUniversal, ttag = TagSequence,
        tlength = length (ty @ makeFieldBytes (Body v)), tisCompound = True\<rparr> @
        ty @ makeFieldBytes (Body v)"
    by (auto simp: Pack_def Marshal_def makeFieldValue_def Let_def split: sum.splits)
  from assms(2) have lt: "length (Type v) < 2 ^ 31" and lb: "length (Body v) < 2 ^ 31"
    by simp_all
  have "length ty \<le> length (Type v) + 6"
    using ty lt
      header_length [of "\<lparr>tclass = ClassUniversal, ttag = TagPrintableString,
        tlength = length (Type v), tisCompound = False\<rparr>"]
      header_length [of "\<lparr>tclass = ClassUniversal, ttag = TagUTF8String,
        tlength = length (Type v), tisCompound = False\<rparr>"]
    by (auto simp: makeFieldString_def TagPrintableString_def TagUTF8String_def
          split: if_splits)
  moreover have "length (makeFieldBytes (Body v)) \<le> length (Body v) + 6"
    using lb header_length [of "\<lparr>tclass = ClassUniversal, ttag = TagOctetString,
        tlength = length (Body v), tisCompound = False\<rparr>"]
    by (simp add: makeFieldBytes_def TagOctetString_def)
  ultimately have body: "length (ty @ makeFieldBytes (Body v)) \<le>
      length (Type v) + length (Body v) + 12"
    by simp
  with assms(2) have "length (ty @ makeFieldBytes (Body v)) < 2 ^ 31" by simp
  from header_length [of "\<lparr>tclass = ClassUniversal, ttag = TagSequence,
        tlength = length (ty @ makeFieldBytes (Body v)), tisCompound = True\<rparr>"] this
  have "length (appendTagAndLength \<lparr>tclass = ClassUniversal, ttag = TagSequence,
        tlength = length (ty @ makeFieldBytes (Body v)), tisCompound = True\<rparr>) \<le> 6"
    by (simp add: TagSequence_def)
  with body show ?thesis by (simp add: p)
qed

subsection \<open>Trailing bytes are not looked at\<close>

lemma parseBase128Loop_append:
  "parseBase128Loop shifted r bs = Inr (t, rest) \<Longrightarrow>
   parseBase128Loop shifted r (bs @ s) = Inr (t, rest @ s)"
proof (induction shifted r bs rule: parseBase128Loop.induct)
  case (1 shifted ret64)
  then show ?case by simp
next
  case (2 shifted ret64 b bytes)
  then show ?case
    by (auto simp: Let_def split: if_splits)
qed

lemma parseLengthLoop_append:
  "parseLengthLoop n len bs = Inr (l, rest) \<Longrightarrow>
   parseLengthLoop n len (bs @ s) = Inr (l, rest @ s)"
proof (induction n len bs rule: parseLengthLoop.induct)
  case (3 n len b bytes)
  then show ?case
    by (auto simp: Let_def split: if_splits)
qed simp_all

lemma parseTagAndLength_append:
  assumes "parseTagAndLength bs = Inr (t, rest)"
  shows "parseTagAndLength (bs @ s) = Inr (t, rest @ s)"
proof (cases bs)
  case Nil
  with assms show ?thesis by (simp add: parseTagAndLength_def)
next
  case (Cons b bytes1)
  show ?thesis
  proof (cases "unat (b AND 0x1f) = 0x1f")
    case high: True
    with assms Cons obtain tg bytes2 where
      t1: "parseBase128Int bytes1 = Inr (tg, bytes2)" and t2: "\<not> tg < 0x1f"
      by (auto simp: parseTagAndLength_def split: sum.splits if_splits)
    from t1 have t1': "parseBase128Int (bytes1 @ s) = Inr (tg, bytes2 @ s)"
      by (simp add: parseBase128Int_def parseBase128Loop_append)
    from assms Cons high t1 t2 show ?thesis
      by (cases bytes2)
         (auto simp: parseTagAndLength_def t1' parseLengthLoop_append
            split: sum.splits if_splits)
  next
    case low: False
    from assms Cons low show ?thesis
      by (cases bytes1)
         (auto simp: parseTagAndLength_def parseLengthLoop_append
            split: sum.splits if_splits)
  qed
qed

lemma parseFieldHeader_append:
  assumes "parseFieldHeader kind bs = Inr (tg, inner, rest)"
  shows "parseFieldHeader kind (bs @ s) = Inr (tg, inner, rest @ s)"
proof -
  from assms have ne: "bs \<noteq> []"
    by (auto simp: parseFieldHeader_def split: if_splits)
  from assms ne obtain t r where t: "parseTagAndLength bs = Inr (t, r)"
    by (auto simp: parseFieldHeader_def split: sum.splits)
  note t' = parseTagAndLength_append [OF t, of s]
  from assms ne t have len: "tlength t \<le> length r"
    by (auto simp: parseFieldHeader_def Let_def split: prod.splits if_splits)
  from assms ne t len show ?thesis
    by (auto simp: parseFieldHeader_def t' Let_def split: prod.splits if_splits)
qed

lemma parseFieldValue_append:
  assumes "parseFieldValue bs = Inr (v, rest)"
  shows "parseFieldValue (bs @ s) = Inr (v, rest @ s)"
proof -
  from assms obtain tg inner where
    h: "parseFieldHeader KindStruct bs = Inr (tg, inner, rest)"
    by (auto simp: parseFieldValue_def split: sum.splits)
  note h' = parseFieldHeader_append [OF h, of s]
  from assms h show ?thesis
    by (auto simp: parseFieldValue_def h' split: sum.splits)
qed

lemma Unpack_append:
  assumes "Unpack bs = Inr v"
  shows "Unpack (bs @ s) = Inr v"
proof -
  from assms obtain rest where "parseFieldValue bs = Inr (v, rest)"
    by (auto simp: Unpack_def Unmarshal_def split: sum.splits)
  from parseFieldValue_append [OF this, of s] show ?thesis
    by (simp add: Unpack_def Unmarshal_def)
qed

subsection \<open>Envelopes of two gigabytes\<close>

lemma length_too_large:
  "Unpack (0x30 # 0x84 # 0x80 # 0x00 # 0x00 # 0x08 # rest) =
     Inl (ErrUnpack ErrLengthTooLarge)"
proof -
  have four: "(4::nat) = Suc (Suc (Suc (Suc 0)))" by simp
  have "parseLengthLoop 4 0 (0x80 # 0x00 # 0x00 # 0x08 # rest) = Inl ErrLengthTooLarge"
    by (subst four) simp
  then have "parseTagAndLength (0x30 # 0x84 # 0x80 # 0x00 # 0x00 # 0x08 # rest) =
      Inl ErrLengthTooLarge"
    by (simp add: parseTagAndLength_def del: parseLengthLoop.simps)
  then show ?thesis
    by (simp add: Unpack_def Unmarshal_def parseFieldValue_def parseFieldHeader_def)
qed

lemma Pack_two_gigabytes:
  "Pack \<lparr>Type = [], Body = replicate (2 ^ 31) 0x00\<rparr> =
     Inr (0x30 # 0x84 # 0x80 # 0x00 # 0x00 # 0x08 # 0x13 # 0x00 #
          0x04 # 0x84 # 0x80 # 0x00 # 0x00 # 0x00 # replicate (2 ^ 31) 0x00)"
proof -
  have l1: "lengthLength 2147483648 = Suc (Suc (Suc (Suc 0)))"
    by (rule lengthLength_4) simp_all
  have l2: "lengthLength 2147483656 = Suc (Suc (Suc (Suc 0)))"
    by (rule lengthLength_4) simp_all
  show ?thesis
    by (simp add: Pack_def Marshal_def makeFieldValue_def makeFieldString_def
          makeFieldBytes_def appendTagAndLength_def appendLength_def l1 l2
          ClassUniversal_def TagSequence_def TagPrintableString_def TagOctetString_def
          del: lengthLength.simps)
qed

subsection \<open>Round trip\<close>

text \<open>
  Claim C3, as amended. \<open>Pack\<close> succeeds exactly when the type tag is valid UTF-8. When
  it succeeds and the envelope is shorter than \<open>2^31\<close> bytes, \<open>Unpack\<close> of the envelope
  succeeds and gives the value back; that is so whenever the type tag is valid UTF-8 and
  tag and body together have at most \<open>2^31 - 19\<close> bytes. Nothing is asked of the body: it
  may be empty and may hold any bytes.
\<close>

theorem C3_pack_unpack_roundtrip:
  "(Pack v = Inr p \<and> length p < 2 ^ 31 \<longrightarrow> Unpack p = Inr v) \<and>
   (utf8Valid (Type v) \<and> length (Type v) + length (Body v) + 18 < 2 ^ 31 \<longrightarrow>
      (\<exists>p. Pack v = Inr p \<and> Unpack p = Inr v)) \<and>
   ((\<exists>p. Pack v = Inr p) \<longleftrightarrow> utf8Valid (Type v))"
proof (intro conjI impI)
  assume "Pack v = Inr p \<and> length p < 2 ^ 31"
  then have "Unpack (p @ []) = Inr v" by (intro Unpack_Pack) simp_all
  then show "Unpack p = Inr v" by simp
next
  assume h: "utf8Valid (Type v) \<and> length (Type v) + length (Body v) + 18 < 2 ^ 31"
  with Pack_ok_iff [of v] obtain p where p: "Pack v = Inr p" by blast
  from Pack_length [OF p] h have "length p < 2 ^ 31" by simp
  from Unpack_Pack [OF p this, of "[]"] p show "\<exists>p. Pack v = Inr p \<and> Unpack p = Inr v"
    by simp
next
  show "(\<exists>p. Pack v = Inr p) \<longleftrightarrow> utf8Valid (Type v)" by (rule Pack_ok_iff)
qed

theorem C3_pack_unpack_roundtrip_witness:
  "Pack \<lparr>Type = [0x70, 0x65, 0x6d], Body = [0x00, 0xff, 0x80, 0x0a]\<rparr> =
     Inr [0x30, 0x0b, 0x13, 0x03, 0x70, 0x65, 0x6d, 0x04, 0x04, 0x00, 0xff, 0x80, 0x0a] \<and>
   Unpack [0x30, 0x0b, 0x13, 0x03, 0x70, 0x65, 0x6d, 0x04, 0x04, 0x00, 0xff, 0x80, 0x0a] =
     Inr \<lparr>Type = [0x70, 0x65, 0x6d], Body = [0x00, 0xff, 0x80, 0x0a]\<rparr> \<and>
   Pack \<lparr>Type = [0xc3, 0xa9], Body = []\<rparr> = Inr [0x30, 0x06, 0x0c, 0x02, 0xc3, 0xa9, 0x04, 0x00] \<and>
   Unpack [0x30, 0x06, 0x0c, 0x02, 0xc3, 0xa9, 0x04, 0x00] = Inr \<lparr>Type = [0xc3, 0xa9], Body = []\<rparr> \<and>
   utf8Valid [0x70, 0x65, 0x6d] \<and>
   (\<exists>p. Pack \<lparr>Type = [0x70, 0x65, 0x6d], Body = replicate 16777216 0xff\<rparr> = Inr p \<and>
        Unpack p = Inr \<lparr>Type = [0x70, 0x65, 0x6d], Body = replicate 16777216 0xff\<rparr>)"
proof -
  have p1: "Pack \<lparr>Type = [0x70, 0x65, 0x6d], Body = [0x00, 0xff, 0x80, 0x0a]\<rparr> =
     Inr [0x30, 0x0b, 0x13, 0x03, 0x70, 0x65, 0x6d, 0x04, 0x04, 0x00, 0xff, 0x80, 0x0a]"
    by (simp add: Pack_def Marshal_def makeFieldValue_def makeFieldString_def
          makeFieldBytes_def appendTagAndLength_def isPrintable_def
          ClassUniversal_def TagSequence_def TagPrintableString_def TagOctetString_def)
  have p2: "Pack \<lparr>Type = [0xc3, 0xa9], Body = []\<rparr> =
     Inr [0x30, 0x06, 0x0c, 0x02, 0xc3, 0xa9, 0x04, 0x00]"
    by (simp add: Pack_def Marshal_def makeFieldValue_def makeFieldString_def
          makeFieldBytes_def appendTagAndLength_def isPrintable_def acceptRange_def
          ClassUniversal_def TagSequence_def TagUTF8String_def TagOctetString_def)
  have u: "utf8Valid [0x70, 0x65, 0x6d]"
    by simp
  from p1 C3_pack_unpack_roundtrip
    [of "\<lparr>Type = [0x70, 0x65, 0x6d], Body = [0x00, 0xff, 0x80, 0x0a]\<rparr>"
        "[0x30, 0x0b, 0x13, 0x03, 0x70, 0x65, 0x6d, 0x04, 0x04, 0x00, 0xff, 0x80, 0x0a]"]
  have r1: "Unpack [0x30, 0x0b, 0x13, 0x03, 0x70, 0x65, 0x6d, 0x04, 0x04, 0x00, 0xff, 0x80, 0x0a] =
     Inr \<lparr>Type = [0x70, 0x65, 0x6d], Body = [0x00, 0xff, 0x80, 0x0a]\<rparr>"
    by simp
  from p2 C3_pack_unpack_roundtrip
    [of "\<lparr>Type = [0xc3, 0xa9], Body = []\<rparr>" "[0x30, 0x06, 0x0c, 0x02, 0xc3, 0xa9, 0x04, 0x00]"]
  have r2: "Unpack [0x30, 0x06, 0x0c, 0x02, 0xc3, 0xa9, 0x04, 0x00] =
     Inr \<lparr>Type = [0xc3, 0xa9], Body = []\<rparr>"
    by simp
  from u C3_pack_unpack_roundtrip
    [of "\<lparr>Type = [0x70, 0x65, 0x6d], Body = replicate 16777216 0xff\<rparr>"]
  have r3: "\<exists>p. Pack \<lparr>Type = [0x70, 0x65, 0x6d], Body = replicate 16777216 0xff\<rparr> = Inr p \<and>
        Unpack p = Inr \<lparr>Type = [0x70, 0x65, 0x6d], Body = replicate 16777216 0xff\<rparr>"
    by simp
  from p1 r1 p2 r2 u r3 show ?thesis by (intro conjI)
qed

text \<open>
  The claim as it stands fails in two places: a type tag that is not valid UTF-8 is refused
  by \<open>Pack\<close>, and the envelope of a body of \<open>2^31\<close> bytes is refused by \<open>Unpack\<close>, whose
  length parser stops at \<open>2^31 - 1\<close>.
\<close>

theorem C3_roundtrip_counterexample:
  "Pack \<lparr>Type = [0xff], Body = []\<rparr> = Inl (ErrPack ErrStringNotUTF8) \<and>
   Pack \<lparr>Type = [], Body = replicate (2 ^ 31) 0x00\<rparr> =
     Inr (0x30 # 0x84 # 0x80 # 0x00 # 0x00 # 0x08 # 0x13 # 0x00 #
          0x04 # 0x84 # 0x80 # 0x00 # 0x00 # 0x00 # replicate (2 ^ 31) 0x00) \<and>
   Unpack (0x30 # 0x84 # 0x80 # 0x00 # 0x00 # 0x08 # 0x13 # 0x00 #
           0x04 # 0x84 # 0x80 # 0x00 # 0x00 # 0x00 # replicate (2 ^ 31) 0x00) =
     Inl (ErrUnpack ErrLengthTooLarge)"
proof (intro conjI)
  have "\<not> utf8Valid [0xff]" by (simp add: acceptRange_def)
  then show "Pack \<lparr>Type = [0xff], Body = []\<rparr> = Inl (ErrPack ErrStringNotUTF8)"
    by (intro Pack_error) simp
next
  show "Pack \<lparr>Type = [], Body = replicate (2 ^ 31) 0x00\<rparr> =
     Inr (0x30 # 0x84 # 0x80 # 0x00 # 0x00 # 0x08 # 0x13 # 0x00 #
          0x04 # 0x84 # 0x80 # 0x00 # 0x00 # 0x00 # replicate (2 ^ 31) 0x00)"
    by (rule Pack_two_gigabytes)
next
  show "Unpack (0x30 # 0x84 # 0x80 # 0x00 # 0x00 # 0x08 # 0x13 # 0x00 #
           0x04 # 0x84 # 0x80 # 0x00 # 0x00 # 0x00 # replicate (2 ^ 31) 0x00) =
     Inl (ErrUnpack ErrLengthTooLarge)"
    by (rule length_too_large)
qed

subsection \<open>Prefix tolerance\<close>

text \<open>
  Claim C10, as amended. For every value whose envelope \<open>Pack\<close> produced and is shorter
  than \<open>2^31\<close> bytes, and for every suffix, \<open>Unpack\<close> of the envelope followed by the suffix
  succeeds and gives the value: the trailing bytes are ignored. More generally, what
  \<open>Unpack\<close> accepts it still accepts, with the same value, when bytes are added at the end:
  \<open>Unpack\<close> returns an error on an input only when it returns an error on every prefix of
  the input.
\<close>

theorem C10_unpack_prefix_tolerant:
  "(Pack v = Inr p \<and> length p < 2 ^ 31 \<longrightarrow> Unpack (p @ s) = Inr v) \<and>
   (Unpack q = Inr v \<longrightarrow> Unpack (q @ s) = Inr v) \<and>
   (Unpack (q @ s) = Inl e \<longrightarrow> (\<exists>e'. Unpack q = Inl e'))"
proof (intro conjI impI)
  assume "Pack v = Inr p \<and> length p < 2 ^ 31"
  then show "Unpack (p @ s) = Inr v" by (intro Unpack_Pack) simp_all
next
  assume "Unpack q = Inr v"
  then show "Unpack (q @ s) = Inr v" by (rule Unpack_append)
next
  assume e: "Unpack (q @ s) = Inl e"
  show "\<exists>e'. Unpack q = Inl e'"
  proof (cases "Unpack q")
    case (Inl e')
    then show ?thesis by blast
  next
    case (Inr v')
    from Unpack_append [OF this, of s] e show ?thesis by simp
  qed
qed

theorem C10_unpack_prefix_tolerant_witness:
  "Pack \<lparr>Type = [0x70, 0x65, 0x6d], Body = [0x00, 0xff, 0x80, 0x0a]\<rparr> =
     Inr [0x30, 0x0b, 0x13, 0x03, 0x70, 0x65, 0x6d, 0x04, 0x04, 0x00, 0xff, 0x80, 0x0a] \<and>
   Unpack ([0x30, 0x0b, 0x13, 0x03, 0x70, 0x65, 0x6d, 0x04, 0x04, 0x00, 0xff, 0x80, 0x0a] @
           [0xde, 0xad, 0xbe, 0xef]) =
     Inr \<lparr>Type = [0x70, 0x65, 0x6d], Body = [0x00, 0xff, 0x80, 0x0a]\<rparr> \<and>
   Unpack ([0x30] @ [0x00]) = Inl (ErrUnpack ErrSequenceTruncated) \<and>
   (\<exists>e'. Unpack [0x30] = Inl e')"
proof -
  have p1: "Pack \<lparr>Type = [0x70, 0x65, 0x6d], Body = [0x00, 0xff, 0x80, 0x0a]\<rparr> =
     Inr [0x30, 0x0b, 0x13, 0x03, 0x70, 0x65, 0x6d, 0x04, 0x04, 0x00, 0xff, 0x80, 0x0a]"
    by (simp add: Pack_def Marshal_def makeFieldValue_def makeFieldString_def
          makeFieldBytes_def appendTagAndLength_def isPrintable_def
          ClassUniversal_def TagSequence_def TagPrintableString_def TagOctetString_def)
  have e1: "Unpack ([0x30] @ [0x00]) = Inl (ErrUnpack ErrSequenceTruncated)"
    by (simp add: Unpack_def Unmarshal_def parseFieldValue_def parseFieldHeader_def
          parseFieldString_def parseTagAndLength_def
          ClassUniversal_def TagSequence_def TagPrintableString_def)
  from p1 C10_unpack_prefix_tolerant
    [of "\<lparr>Type = [0x70, 0x65, 0x6d], Body = [0x00, 0xff, 0x80, 0x0a]\<rparr>"
        "[0x30, 0x0b, 0x13, 0x03, 0x70, 0x65, 0x6d, 0x04, 0x04, 0x00, 0xff, 0x80, 0x0a]"
        "[0xde, 0xad, 0xbe, 0xef]"]
  have r1: "Unpack ([0x30, 0x0b, 0x13, 0x03, 0x70, 0x65, 0x6d, 0x04, 0x04, 0x00, 0xff, 0x80, 0x0a] @
           [0xde, 0xad, 0xbe, 0xef]) =
     Inr \<lparr>Type = [0x70, 0x65, 0x6d], Body = [0x00, 0xff, 0x80, 0x0a]\<rparr>"
    by simp
  from e1 C10_unpack_prefix_tolerant
    [where q = "[0x30]" and s = "[0x00]" and e = "ErrUnpack ErrSequenceTruncated"]
  have r2: "\<exists>e'. Unpack [0x30] = Inl e'"
    by blast
  from p1 r1 e1 r2 show ?thesis by (intro conjI)
qed

text \<open>
  The claim as it stands fails for a value of two gigabytes: \<open>Pack\<close> produces its
  envelope, and \<open>Unpack\<close> refuses the envelope, with or without bytes after it.
\<close>

theorem C10_prefix_counterexample:
  "Pack \<lparr>Type = [], Body = replicate (2 ^ 31) 0x00\<rparr> =
     Inr (0x30 # 0x84 # 0x80 # 0x00 # 0x00 # 0x08 # 0x13 # 0x00 #
          0x04 # 0x84 # 0x80 # 0x00 # 0x00 # 0x00 # replicate (2 ^ 31) 0x00) \<and>
   Unpack ((0x30 # 0x84 # 0x80 # 0x00 # 0x00 # 0x08 # 0x13 # 0x00 #
            0x04 # 0x84 # 0x80 # 0x00 # 0x00 # 0x00 # replicate (2 ^ 31) 0x00) @ [0xde, 0xad]) =
     Inl (ErrUnpack ErrLengthTooLarge)"
proof (intro conjI)
  show "Pack \<lparr>Type = [], Body = replicate (2 ^ 31) 0x00\<rparr> =
     Inr (0x30 # 0x84 # 0x80 # 0x00 # 0x00 # 0x08 # 0x13 # 0x00 #
          0x04 # 0x84 # 0x80 # 0x00 # 0x00 # 0x00 # replicate (2 ^ 31) 0x00)"
    by (rule Pack_two_gigabytes)
next
  have "(0x30 # 0x84 # 0x80 # 0x00 # 0x00 # 0x08 # 0x13 # 0x00 #
            0x04 # 0x84 # 0x80 # 0x00 # 0x00 # 0x00 # replicate (2 ^ 31) (0x00 :: byte)) @ [0xde, 0xad]
      = 0x30 # 0x84 # 0x80 # 0x00 # 0x00 # 0x08 #
          ((0x13 # 0x00 # 0x04 # 0x84 # 0x80 # 0x00 # 0x00 # 0x00 # replicate (2 ^ 31) 0x00) @ [0xde, 0xad])"
    by simp
  then show "Unpack ((0x30 # 0x84 # 0x80 # 0x00 # 0x00 # 0x08 # 0x13 # 0x00 #
            0x04 # 0x84 # 0x80 # 0x00 # 0x00 # 0x00 # replicate (2 ^ 31) 0x00) @ [0xde, 0xad]) =
     Inl (ErrUnpack ErrLengthTooLarge)"
    by (simp only: length_too_large)
qed

end
